theory Spec2Isabelle
  imports Main "HOL-Library.Multiset"
begin

section \<open>The current-editor holder (getCurrentEditor / setCurrentEditor)\<close>

text \<open>
  An \<open>IEditor\<close> object is known here by its identity only. The module keeps one variable,
  \<open>editor\<close>, which is undefined until the first \<open>setCurrentEditor\<close>. The only method
  the module calls on an editor is \<open>dispose()\<close>; each call is recorded, in order, together
  with the content of the module variable at the moment of the call.
\<close>

type_synonym IEditor = nat

record holder =
  editor :: "IEditor option"
  disposeCalls :: "(IEditor \<times> IEditor option) list"

definition getCurrentEditor :: "holder \<Rightarrow> IEditor option" where
  "getCurrentEditor h = editor h"

definition dispose :: "IEditor \<Rightarrow> holder \<Rightarrow> holder" where
  "dispose e h = h\<lparr>disposeCalls := disposeCalls h @ [(e, editor h)]\<rparr>"

definition setCurrentEditor :: "IEditor option \<Rightarrow> holder \<Rightarrow> holder" where
  "setCurrentEditor newEditor h =
     (let h1 = (case editor h of Some e \<Rightarrow> dispose e h | None \<Rightarrow> h)
      in h1\<lparr>editor := newEditor\<rparr>)"

section \<open>The undo-snapshot transaction (IEditor.addUndoSnapshot)\<close>

text \<open>
  Only the declaration of \<open>addUndoSnapshot\<close> is part of the sources at hand; the
  coordinator below follows the specification's state machine. A callback is a program:
  a list of steps, each an edit of the content or a nested \<open>addUndoSnapshot\<close> call or
  a raised error, and a function giving the value the callback returns from the content
  it leaves behind.
\<close>

type_synonym content = string
type_synonym data = string

datatype step =
    Edit "content \<Rightarrow> content"
  | Nested "callback option" "string option"
  | Throw
and callback = Callback "step list" "content \<Rightarrow> data"

record notification =
  source :: string
  payload :: "data option"
  seen :: content

record undoState =
  tree :: content
  depth :: nat
  snapshots :: "content list"
  notifications :: "notification list"

text \<open>
  Modelled from the spec: the implementation of \<open>addUndoSnapshot\<close> is missing. Idle
  (depth 0): capture a snapshot, run the callback, capture a snapshot, return to Idle
  and, only if a change source was supplied, emit one notification carrying the value
  the callback returned. In a transaction (depth above 0): run the nested callback
  immediately, capture nothing, emit nothing. A callback that raises abandons the
  sequence: the depth is restored, no second snapshot is taken and no notification is
  sent. The boolean of the result is False when an error propagates to the caller.
\<close>

fun addUndoSnapshot :: "callback option \<Rightarrow> string option \<Rightarrow> undoState \<Rightarrow> undoState \<times> data option \<times> bool"
  and runCallback :: "callback \<Rightarrow> undoState \<Rightarrow> undoState \<times> data option \<times> bool"
  and runSteps :: "step list \<Rightarrow> undoState \<Rightarrow> undoState \<times> bool"
  and runStep :: "step \<Rightarrow> undoState \<Rightarrow> undoState \<times> bool"
where
  "addUndoSnapshot None changeSource s =
     (if depth s = 0 then
        (let s1 = s\<lparr>snapshots := snapshots s @ [tree s]\<rparr>;
             s2 = s1\<lparr>snapshots := snapshots s1 @ [tree s1]\<rparr>
         in (case changeSource of
               None \<Rightarrow> (s2, None, True)
             | Some src \<Rightarrow>
                 (s2\<lparr>notifications := notifications s2 @
                        [\<lparr>source = src, payload = None, seen = tree s2\<rparr>]\<rparr>, None, True)))
      else (s, None, True))"
| "addUndoSnapshot (Some cb) changeSource s =
     (if depth s = 0 then
        (let s1 = s\<lparr>snapshots := snapshots s @ [tree s], depth := 1\<rparr>;
             (s2, r, ok) = runCallback cb s1
         in if \<not> ok then (s2\<lparr>depth := 0\<rparr>, None, False)
            else
              (let s3 = s2\<lparr>snapshots := snapshots s2 @ [tree s2], depth := 0\<rparr>
               in (case changeSource of
                     None \<Rightarrow> (s3, r, True)
                   | Some src \<Rightarrow>
                       (s3\<lparr>notifications := notifications s3 @
                              [\<lparr>source = src, payload = r, seen = tree s3\<rparr>]\<rparr>, r, True))))
      else runCallback cb s)"
| "runCallback (Callback steps result) s =
     (let (s1, ok) = runSteps steps s
      in if ok then (s1, Some (result (tree s1)), True) else (s1, None, False))"
| "runSteps [] s = (s, True)"
| "runSteps (x # xs) s =
     (let (s1, ok) = runStep x s
      in if ok then runSteps xs s1 else (s1, False))"
| "runStep (Edit f) s = (s\<lparr>tree := f (tree s)\<rparr>, True)"
| "runStep (Nested cbo changeSource) s =
     (let (s1, r, ok) = addUndoSnapshot cbo changeSource s in (s1, ok))"
| "runStep Throw s = (s, False)"

subsection \<open>A nested transaction, three levels deep\<close>

definition demoInner :: callback where
  "demoInner =
     Callback [Edit (\<lambda>c. c @ ''b''),
               Nested (Some (Callback [Edit (\<lambda>c. c @ ''c'')] (\<lambda>c. ''deepest''))) (Some ''Format'')]
              (\<lambda>c. ''inner'')"

definition demoSteps :: "step list" where
  "demoSteps = [Edit (\<lambda>c. c @ ''a''), Nested (Some demoInner) (Some ''Format''), Edit (\<lambda>c. c @ ''d'')]"

definition demoState :: undoState where
  "demoState = \<lparr>tree = ''x'', depth = 0, snapshots = [], notifications = []\<rparr>"

section \<open>The content tree of the host\<close>

text \<open>
  The editor works on the document tree of the host. A node has an identity, a type, a
  tag name (upper case, as the host reports it for elements), character data (for text)
  and its children in document order. Of the node types of \<open>NodeType\<close> the code
  tells three apart: elements, text and document fragments. References between nodes
  (\<open>parentNode\<close>, \<open>nextSibling\<close>, a node kept in a variable) are identities looked
  up in the tree.
\<close>

datatype NodeType = Element | Text | DocumentFragment

datatype node = Node (nid: nat) (nodeType: NodeType) (tagName: string) (nodeValue: string)
  (childNodes: "node list")

text \<open>
  What the host raises: \<open>TypeError\<close> for a method called on \<open>null\<close>, the three
  exceptions of the tree and range operations, and \<open>NotInDocument\<close> for a node or a
  boundary that is not part of the document tree (the tree is all that is followed here).
\<close>

datatype domError = TypeError | HierarchyRequestError | NotFoundError | InvalidNodeTypeError
  | NotInDocument

fun ids :: "node \<Rightarrow> nat list" and idsl :: "node list \<Rightarrow> nat list" where
  "ids (Node i t g v cs) = i # idsl cs"
| "idsl [] = []"
| "idsl (c # cs) = ids c @ idsl cs"

fun findNode :: "nat \<Rightarrow> node \<Rightarrow> node option"
  and findNodes :: "nat \<Rightarrow> node list \<Rightarrow> node option" where
  "findNode i (Node j t g v cs) = (if i = j then Some (Node j t g v cs) else findNodes i cs)"
| "findNodes i [] = None"
| "findNodes i (c # cs) = (case findNode i c of Some n \<Rightarrow> Some n | None \<Rightarrow> findNodes i cs)"

fun parentOf :: "nat \<Rightarrow> node \<Rightarrow> node option"
  and parentOfs :: "nat \<Rightarrow> node list \<Rightarrow> node option" where
  "parentOf i (Node j t g v cs) =
     (if i \<in> set (map nid cs) then Some (Node j t g v cs) else parentOfs i cs)"
| "parentOfs i [] = None"
| "parentOfs i (c # cs) = (case parentOf i c of Some p \<Rightarrow> Some p | None \<Rightarrow> parentOfs i cs)"

text \<open>The identities on the way from the root of a tree down to a node; empty if absent.\<close>

fun pathTo :: "nat \<Rightarrow> node \<Rightarrow> nat list" and pathTos :: "nat \<Rightarrow> node list \<Rightarrow> nat list" where
  "pathTo i (Node j t g v cs) =
     (if i = j then [j] else (case pathTos i cs of [] \<Rightarrow> [] | p # ps \<Rightarrow> j # p # ps))"
| "pathTos i [] = []"
| "pathTos i (c # cs) = (case pathTo i c of [] \<Rightarrow> pathTos i cs | p # ps \<Rightarrow> p # ps)"

text \<open>
  A mutation of one node: the first node with the given identity (in document order) is
  replaced by its image; \<open>None\<close> when the tree has no such node.
\<close>

fun updFirst :: "nat \<Rightarrow> (node \<Rightarrow> node) \<Rightarrow> node \<Rightarrow> node option"
  and updFirsts :: "nat \<Rightarrow> (node \<Rightarrow> node) \<Rightarrow> node list \<Rightarrow> node list option" where
  "updFirst i f (Node j t g v cs) =
     (if i = j then Some (f (Node j t g v cs))
      else map_option (Node j t g v) (updFirsts i f cs))"
| "updFirsts i f [] = None"
| "updFirsts i f (c # cs) =
     (case updFirst i f c of
        Some c' \<Rightarrow> Some (c' # cs)
      | None \<Rightarrow> map_option ((#) c) (updFirsts i f cs))"

fun setChildNodes :: "node list \<Rightarrow> node \<Rightarrow> node" where
  "setChildNodes cs (Node i t g v old) = Node i t g v cs"

fun setNodeValue :: "string \<Rightarrow> node \<Rightarrow> node" where
  "setNodeValue v (Node i t g old cs) = Node i t g v cs"

definition firstChild :: "node \<Rightarrow> node option" where
  "firstChild n = (case childNodes n of [] \<Rightarrow> None | c # cs \<Rightarrow> Some c)"

definition lastChild :: "node \<Rightarrow> node option" where
  "lastChild n = (case rev (childNodes n) of [] \<Rightarrow> None | c # cs \<Rightarrow> Some c)"

definition indexOfChild :: "nat \<Rightarrow> node \<Rightarrow> nat" where
  "indexOfChild i p = length (takeWhile (\<lambda>c. nid c \<noteq> i) (childNodes p))"

definition nextSibling :: "node \<Rightarrow> nat \<Rightarrow> node option" where
  "nextSibling doc i =
     (case parentOf i doc of
        None \<Rightarrow> None
      | Some p \<Rightarrow> (case dropWhile (\<lambda>c. nid c \<noteq> i) (childNodes p) of
                     c # s # cs \<Rightarrow> Some s
                   | _ \<Rightarrow> None))"

text \<open>
  Inserting a document fragment inserts its children and leaves the fragment empty;
  the host returns the node it was given. For \<open>insertBefore\<close> and \<open>appendChild\<close>
  the node handed over is a tree of its own (detached); a node that already sits in the
  document is moved only by \<open>Range.insertNode\<close>, further down. What the host makes
  of the ranges on these two insertions is not followed either.
\<close>

definition insertedNodes :: "node \<Rightarrow> node list" where
  "insertedNodes n = (if nodeType n = DocumentFragment then childNodes n else [n])"

definition afterInsertion :: "node \<Rightarrow> node" where
  "afterInsertion n = (if nodeType n = DocumentFragment then setChildNodes [] n else n)"

fun insertKidsBefore :: "node list \<Rightarrow> nat option \<Rightarrow> node list \<Rightarrow> node list" where
  "insertKidsBefore new None cs = cs @ new"
| "insertKidsBefore new (Some r) cs =
     takeWhile (\<lambda>c. nid c \<noteq> r) cs @ new @ dropWhile (\<lambda>c. nid c \<noteq> r) cs"

text \<open>
  \<open>parent.insertBefore(node, child)\<close> of the host, on the document \<open>doc\<close>: a
  \<open>null\<close> parent is a TypeError; a text parent, or a node that contains the parent,
  is a HierarchyRequestError; a child that is not a child of the parent is a
  NotFoundError. The result is the new document and the node returned by the host.
\<close>

definition insertBefore :: "node \<Rightarrow> node option \<Rightarrow> node \<Rightarrow> nat option \<Rightarrow> domError + node \<times> node" where
  "insertBefore doc parent n child =
     (case parent of
        None \<Rightarrow> Inl TypeError
      | Some p \<Rightarrow>
          if nodeType p = Text then Inl HierarchyRequestError
          else if nid p \<in> set (ids n) then Inl HierarchyRequestError
          else if (case child of None \<Rightarrow> False | Some r \<Rightarrow> r \<notin> set (map nid (childNodes p)))
            then Inl NotFoundError
          else (case updFirst (nid p)
                       (\<lambda>q. setChildNodes (insertKidsBefore (insertedNodes n) child (childNodes q)) q)
                       doc of
                  None \<Rightarrow> Inl NotInDocument
                | Some doc' \<Rightarrow> Inr (doc', afterInsertion n)))"

definition appendChild :: "node \<Rightarrow> node option \<Rightarrow> node \<Rightarrow> domError + node \<times> node" where
  "appendChild doc parent n = insertBefore doc parent n None"

section \<open>Ranges of the host\<close>

text \<open>
  A range is two boundary points, each a container and an offset (a child index in an
  element, a character index in a text node).
\<close>

record domRange =
  startContainer :: nat
  startOffset :: nat
  endContainer :: nat
  endOffset :: nat

definition collapsed :: "domRange \<Rightarrow> bool" where
  "collapsed r = (startContainer r = endContainer r \<and> startOffset r = endOffset r)"

text \<open>
  Positions in document order. A node is reached from the root by a path of child
  indices (\<open>indexPath\<close>, for the first node with the identity). A boundary point lies
  in front of the child, or the character, whose index is its offset: it is the path to
  its container followed by the offset. \<open>pathLe\<close> compares two such positions in
  document order; a position comes before every position that extends it.
\<close>

fun indexPath :: "nat \<Rightarrow> node \<Rightarrow> nat list option"
  and indexPaths :: "nat \<Rightarrow> nat \<Rightarrow> node list \<Rightarrow> nat list option" where
  "indexPath i (Node j t g v cs) = (if i = j then Some [] else indexPaths i 0 cs)"
| "indexPaths i k [] = None"
| "indexPaths i k (c # cs) =
     (case indexPath i c of Some p \<Rightarrow> Some (k # p) | None \<Rightarrow> indexPaths i (Suc k) cs)"

fun pathLe :: "nat list \<Rightarrow> nat list \<Rightarrow> bool" where
  "pathLe [] ys = True"
| "pathLe (x # xs) [] = False"
| "pathLe (x # xs) (y # ys) = (x < y \<or> (x = y \<and> pathLe xs ys))"

text \<open>The two boundary points of a range as positions, when both containers are in the tree.\<close>

definition selectionGaps :: "node \<Rightarrow> domRange \<Rightarrow> (nat list \<times> nat list) option" where
  "selectionGaps doc r =
     (case indexPath (startContainer r) doc of
        None \<Rightarrow> None
      | Some ps \<Rightarrow>
          (case indexPath (endContainer r) doc of
             None \<Rightarrow> None
           | Some pe \<Rightarrow> Some (ps @ [startOffset r], pe @ [endOffset r])))"

text \<open>
  A child node, or a character of a text node, with the path \<open>p\<close> is contained in the
  range from \<open>gs\<close> to \<open>ge\<close> when the start is not behind the position in front of it
  (which is \<open>p\<close>) and the end is not before the position behind it (\<open>behind p\<close>).
\<close>

definition behind :: "nat list \<Rightarrow> nat list" where
  "behind p = butlast p @ [Suc (last p)]"

definition inside :: "nat list \<Rightarrow> nat list \<Rightarrow> nat list \<Rightarrow> bool" where
  "inside gs ge p = (pathLe gs p \<and> pathLe (behind p) ge)"

text \<open>
  \<open>Range.deleteContents()\<close> removes every node that is contained in the range and
  every character of a text node that is contained in it; a node that is only partly
  in the range (it holds a boundary, or an ancestor of a boundary) stays, with its
  children treated the same way. \<open>delAt\<close> works on the node with the path \<open>p\<close>.
\<close>

fun keepChars :: "nat list \<Rightarrow> nat list \<Rightarrow> nat list \<Rightarrow> nat \<Rightarrow> string \<Rightarrow> string" where
  "keepChars gs ge p k [] = []"
| "keepChars gs ge p k (c # v) =
     (if inside gs ge (p @ [k]) then keepChars gs ge p (Suc k) v
      else c # keepChars gs ge p (Suc k) v)"

fun delAt :: "nat list \<Rightarrow> nat list \<Rightarrow> nat list \<Rightarrow> node \<Rightarrow> node"
  and delKidsAt :: "nat list \<Rightarrow> nat list \<Rightarrow> nat list \<Rightarrow> nat \<Rightarrow> node list \<Rightarrow> node list" where
  "delAt gs ge p (Node i t g v cs) =
     Node i t g (if t = Text then keepChars gs ge p 0 v else v) (delKidsAt gs ge p 0 cs)"
| "delKidsAt gs ge p k [] = []"
| "delKidsAt gs ge p k (c # cs) =
     (if inside gs ge (p @ [k]) then delKidsAt gs ge p (Suc k) cs
      else delAt gs ge (p @ [k]) c # delKidsAt gs ge p (Suc k) cs)"

fun commonPrefix :: "nat list \<Rightarrow> nat list \<Rightarrow> nat list" where
  "commonPrefix (x # xs) (y # ys) = (if x = y then x # commonPrefix xs ys else [])"
| "commonPrefix xs ys = []"

text \<open>
  Where the range collapses to after the deletion: its start, when the start container
  is an ancestor of the end container or the end container itself; otherwise right
  after the topmost ancestor of the start container that is not an ancestor of the end.
\<close>

definition positionAfterDelete :: "node \<Rightarrow> domRange \<Rightarrow> nat \<times> nat" where
  "positionAfterDelete doc r =
     (let ps = pathTo (startContainer r) doc; pe = pathTo (endContainer r) doc
      in if startContainer r \<in> set pe then (startContainer r, startOffset r)
         else (case (rev (commonPrefix ps pe), drop (length (commonPrefix ps pe)) ps) of
                 (p # up, ref # down) \<Rightarrow>
                   (case findNode p doc of
                      Some pn \<Rightarrow> (p, Suc (indexOfChild ref pn))
                    | None \<Rightarrow> (startContainer r, startOffset r))
               | other \<Rightarrow> (startContainer r, startOffset r)))"

text \<open>
  The result is the new document and the range, collapsed. A range whose containers
  are not in the document is not followed: nothing changes.
\<close>

definition Range_deleteContents :: "node \<Rightarrow> domRange \<Rightarrow> node \<times> domRange" where
  "Range_deleteContents doc r =
     (if collapsed r then (doc, r)
      else (case selectionGaps doc r of
              None \<Rightarrow> (doc, r)
            | Some (gs, ge) \<Rightarrow>
                (let (c, off) = positionAfterDelete doc r
                 in (delAt gs ge [] doc,
                     \<lparr>startContainer = c, startOffset = off, endContainer = c, endOffset = off\<rparr>))))"

text \<open>
  The content of a tree, flat and in document order: every node and every character of
  a text node, each with its path.
\<close>

datatype item = NodeItem nat | CharItem nat char

fun charItems :: "nat list \<Rightarrow> nat \<Rightarrow> nat \<Rightarrow> string \<Rightarrow> (nat list \<times> item) list" where
  "charItems p i k [] = []"
| "charItems p i k (c # v) = (p @ [k], CharItem i c) # charItems p i (Suc k) v"

fun itemsAt :: "nat list \<Rightarrow> node \<Rightarrow> (nat list \<times> item) list"
  and itemsOfKids :: "nat list \<Rightarrow> nat \<Rightarrow> node list \<Rightarrow> (nat list \<times> item) list" where
  "itemsAt p (Node i t g v cs) =
     (p, NodeItem i) # (if t = Text then charItems p i 0 v else []) @ itemsOfKids p 0 cs"
| "itemsOfKids p k [] = []"
| "itemsOfKids p k (c # cs) = itemsAt (p @ [k]) c @ itemsOfKids p (Suc k) cs"

definition content :: "node \<Rightarrow> item list" where
  "content t = map snd (itemsAt [] t)"

definition selectedContent :: "node \<Rightarrow> nat list \<Rightarrow> nat list \<Rightarrow> item list" where
  "selectedContent t gs ge = map snd (filter (\<lambda>e. inside gs ge (fst e)) (itemsAt [] t))"

definition remainingContent :: "node \<Rightarrow> nat list \<Rightarrow> nat list \<Rightarrow> item list" where
  "remainingContent t gs ge = map snd (filter (\<lambda>e. \<not> inside gs ge (fst e)) (itemsAt [] t))"

text \<open>
  \<open>Range.setEndAfter(node)\<close> puts the end right after the node and raises when the
  node has no parent. (The host also moves a start that lies behind the new end; the
  only caller collapses the range to its end at once, which overrides the start.)
\<close>

definition Range_setEndAfter :: "node \<Rightarrow> domRange \<Rightarrow> nat \<Rightarrow> domError + domRange" where
  "Range_setEndAfter doc r i =
     (case parentOf i doc of
        None \<Rightarrow> Inl InvalidNodeTypeError
      | Some p \<Rightarrow> Inr (r\<lparr>endContainer := nid p, endOffset := Suc (indexOfChild i p)\<rparr>))"

definition Range_collapse :: "domRange \<Rightarrow> bool \<Rightarrow> domRange" where
  "Range_collapse r toStart =
     (if toStart then r\<lparr>endContainer := startContainer r, endOffset := startOffset r\<rparr>
      else r\<lparr>startContainer := endContainer r, startOffset := endOffset r\<rparr>)"

text \<open>
  A node has one place. The node handed to \<open>Range.insertNode\<close> is known by its
  identity: if a node with this identity is in the document, it is that node, as it is
  there, and the insertion moves it; otherwise it is the tree that was handed over,
  without the nodes that are in the document by now (\<open>prune\<close>). A document fragment is
  never part of a document. \<open>movedNodes\<close> are the nodes the host puts in: the
  children of a fragment, or the node itself. \<open>detach\<close> takes the node out of the
  place where it is.
\<close>

fun prune :: "nat list \<Rightarrow> node \<Rightarrow> node" and prunes :: "nat list \<Rightarrow> node list \<Rightarrow> node list" where
  "prune used (Node i t g v cs) = Node i t g v (prunes used cs)"
| "prunes used [] = []"
| "prunes used (c # cs) =
     (if nid c \<in> set used then prunes used cs else prune used c # prunes used cs)"

fun removeNode :: "nat \<Rightarrow> node \<Rightarrow> node" and removeNodes :: "nat \<Rightarrow> node list \<Rightarrow> node list" where
  "removeNode i (Node j t g v cs) = Node j t g v (removeNodes i cs)"
| "removeNodes i [] = []"
| "removeNodes i (c # cs) =
     (if nid c = i then removeNodes i cs else removeNode i c # removeNodes i cs)"

definition nodeNow :: "node \<Rightarrow> node \<Rightarrow> node" where
  "nodeNow doc n =
     (if nodeType n = DocumentFragment then prune (ids doc) n
      else (case findNode (nid n) doc of Some x \<Rightarrow> x | None \<Rightarrow> prune (ids doc) n))"

definition movedNodes :: "node \<Rightarrow> node \<Rightarrow> node list" where
  "movedNodes doc n =
     (if nodeType n = DocumentFragment then childNodes (nodeNow doc n) else [nodeNow doc n])"

definition detach :: "node \<Rightarrow> node \<Rightarrow> node" where
  "detach n doc = (if nodeType n = DocumentFragment then doc else removeNode (nid n) doc)"

text \<open>
  \<open>Range.insertNode(node)\<close> inserts at the start of the range. The start container
  must not be the node itself. In a text node the text is split at the offset (the
  second half is a new text node, which takes the identity \<open>fresh\<close>) and the node goes
  in front of the second half; in an element the node goes in front of the child at the
  offset (in front of the following one, if that child is the node itself). A node that
  contains the parent of the insertion is refused. \<open>insertionSite\<close> is the document
  after the split, the parent, the child in front of which the node goes, and the next
  unused identity; \<open>Range_insertNode\<close> takes the node out of its old place and puts it
  there.
\<close>

definition splitText :: "nat \<Rightarrow> nat \<Rightarrow> nat \<Rightarrow> node \<Rightarrow> node" where
  "splitText i off fresh q =
     setChildNodes
       (takeWhile (\<lambda>c. nid c \<noteq> i) (childNodes q)
        @ (case dropWhile (\<lambda>c. nid c \<noteq> i) (childNodes q) of
             [] \<Rightarrow> []
           | c # rest \<Rightarrow>
               setNodeValue (take off (nodeValue c)) c
               # Node fresh Text [] (drop off (nodeValue c)) [] # rest)) q"

definition referenceChild :: "node \<Rightarrow> nat \<Rightarrow> nat \<Rightarrow> nat option" where
  "referenceChild sn off i =
     (case drop off (childNodes sn) of
        [] \<Rightarrow> None
      | c # rest \<Rightarrow>
          if nid c = i then (case rest of [] \<Rightarrow> None | s # others \<Rightarrow> Some (nid s))
          else Some (nid c))"

definition insertionSite ::
  "node \<Rightarrow> nat \<Rightarrow> domRange \<Rightarrow> node \<Rightarrow> domError + node \<times> nat \<times> nat option \<times> nat" where
  "insertionSite doc fresh r n =
     (case findNode (startContainer r) doc of
        None \<Rightarrow> Inl NotInDocument
      | Some sn \<Rightarrow>
          if nid sn = nid n then Inl HierarchyRequestError
          else if nodeType sn = Text then
            (case parentOf (nid sn) doc of
               None \<Rightarrow> Inl HierarchyRequestError
             | Some p \<Rightarrow>
                 if nid p \<in> set (ids (nodeNow doc n)) then Inl HierarchyRequestError
                 else (case updFirst (nid p) (splitText (nid sn) (startOffset r) fresh) doc of
                         None \<Rightarrow> Inl NotInDocument
                       | Some doc1 \<Rightarrow> Inr (doc1, nid p, Some fresh, Suc fresh)))
          else if nid sn \<in> set (ids (nodeNow doc n)) then Inl HierarchyRequestError
          else Inr (doc, nid sn, referenceChild sn (startOffset r) (nid n), fresh))"

definition Range_insertNode :: "node \<Rightarrow> nat \<Rightarrow> domRange \<Rightarrow> node \<Rightarrow> domError + node \<times> nat" where
  "Range_insertNode doc fresh r n =
     (case insertionSite doc fresh r n of
        Inl e \<Rightarrow> Inl e
      | Inr (doc1, p, ref, fresh') \<Rightarrow>
          (case updFirst p
                  (\<lambda>q. setChildNodes (insertKidsBefore (movedNodes doc n) ref (childNodes q)) q)
                  (detach n doc1) of
             None \<Rightarrow> Inl NotInDocument
           | Some doc3 \<Rightarrow> Inr (doc3, fresh')))"

text \<open>
  The host keeps every range valid while the tree changes. These are its rules for a
  boundary point when a text node is split, when a node is taken out, and when nodes
  are put in: a boundary in the second half of a split text moves to the new text node;
  a boundary inside a node that is taken out moves to the place where the node was; a
  boundary in a parent behind a changed place moves with the children.
\<close>

definition afterSplitText :: "node \<Rightarrow> node \<Rightarrow> nat \<Rightarrow> nat \<Rightarrow> nat \<times> nat \<Rightarrow> nat \<times> nat" where
  "afterSplitText doc sn off fresh b =
     (if fst b = nid sn then (if off < snd b then (fresh, snd b - off) else b)
      else (case parentOf (nid sn) doc of
              None \<Rightarrow> b
            | Some p \<Rightarrow>
                if fst b = nid p \<and> indexOfChild (nid sn) p < snd b then (nid p, Suc (snd b))
                else b))"

definition afterRemoval :: "node \<Rightarrow> node \<Rightarrow> nat \<times> nat \<Rightarrow> nat \<times> nat" where
  "afterRemoval doc n b =
     (if nodeType n = DocumentFragment then b
      else (case parentOf (nid n) doc of
              None \<Rightarrow> b
            | Some p \<Rightarrow>
                (case findNode (nid n) doc of
                   None \<Rightarrow> b
                 | Some x \<Rightarrow>
                     if fst b \<in> set (ids x) then (nid p, indexOfChild (nid n) p)
                     else if fst b = nid p \<and> indexOfChild (nid n) p < snd b
                       then (nid p, snd b - 1)
                     else b)))"

definition afterPlacing :: "nat \<Rightarrow> nat \<Rightarrow> nat \<Rightarrow> nat \<times> nat \<Rightarrow> nat \<times> nat" where
  "afterPlacing p index added b =
     (if fst b = p \<and> index < snd b then (p, snd b + added) else b)"

text \<open>
  What \<open>Range.insertNode\<close> on the range \<open>r\<close> makes of a range \<open>live\<close>: of \<open>r\<close>
  itself (\<open>own\<close>), whose end the host puts behind the inserted nodes if the range is
  collapsed, or of another range that the host keeps valid.
\<close>

definition rangeAfterInsertNode ::
  "bool \<Rightarrow> node \<Rightarrow> nat \<Rightarrow> domRange \<Rightarrow> node \<Rightarrow> domRange \<Rightarrow> domRange" where
  "rangeAfterInsertNode own doc fresh r n live =
     (case insertionSite doc fresh r n of
        Inl e \<Rightarrow> live
      | Inr (doc1, p, ref, fresh') \<Rightarrow>
          (let kids = (case findNode p (detach n doc1) of None \<Rightarrow> [] | Some q \<Rightarrow> childNodes q);
               index = (case ref of
                          None \<Rightarrow> length kids
                        | Some c \<Rightarrow> length (takeWhile (\<lambda>x. nid x \<noteq> c) kids));
               added = length (movedNodes doc n);
               split = (\<lambda>b. case findNode (startContainer r) doc of
                              None \<Rightarrow> b
                            | Some sn \<Rightarrow>
                                if nodeType sn = Text then afterSplitText doc sn (startOffset r) fresh b
                                else b);
               adjust = (\<lambda>b. afterPlacing p index added (afterRemoval doc1 n (split b)));
               s = adjust (startContainer live, startOffset live);
               e = adjust (endContainer live, endOffset live)
           in if own \<and> s = e
              then \<lparr>startContainer = fst s, startOffset = snd s,
                    endContainer = p, endOffset = index + added\<rparr>
              else \<lparr>startContainer = fst s, startOffset = snd s,
                    endContainer = fst e, endOffset = snd e\<rparr>))"

section \<open>The editor core and the options of an insertion\<close>

datatype ContentPosition = Begin | End | Outside | SelectionStart

record InsertOption =
  position :: ContentPosition
  updateCursor :: bool
  replaceSelection :: bool
  insertOnNewLine :: bool

text \<open>A block element is known to \<open>insertNode\<close> by its start node and its end node.\<close>

record BlockElement =
  startNode :: nat
  endNode :: nat

text \<open>
  Of the editor core, \<open>insertNode\<close> uses the content root \<open>contentDiv\<close> (a node of
  the document), the cached range, and through \<open>getLiveRange\<close> the selection of the
  host. \<open>nextId\<close> is the identity the next node created by the host will take.
\<close>

record EditorCore =
  document :: node
  contentDiv :: nat
  liveRange :: "domRange option"
  cachedRange :: "domRange option"
  nextId :: nat

text \<open>
  Four functions that \<open>insertNode\<close> imports are not part of the sources at hand and
  the specification does not fix their results: \<open>focus\<close> (it restores the selection;
  all it can change here are the live and the cached range, which it returns),
  \<open>getBlockElementAtNode\<close> (document, root, node or \<open>null\<close>), \<open>isBlockElement\<close>
  and \<open>isVoidHtmlElement\<close>. They are parameters of the model: what is proved holds
  for every choice of them.
\<close>

record api =
  focus :: "EditorCore \<Rightarrow> domRange option \<times> domRange option"
  getBlockElementAtNode :: "node \<Rightarrow> nat \<Rightarrow> nat option \<Rightarrow> BlockElement option"
  isBlockElement :: "node \<Rightarrow> bool"
  isVoidHtmlElement :: "node \<Rightarrow> bool"

text \<open>
  The constant \<open>HTML_EMPTY_DIV\<close> is the markup of an empty DIV; here it is the
  element this markup creates, given the identity it takes.
\<close>

definition HTML_EMPTY_DIV :: "nat \<Rightarrow> node" where
  "HTML_EMPTY_DIV i = Node i Element ''DIV'' [] []"

text \<open>
  Modelled from the spec: \<open>getLiveRange\<close> is missing; it is the live, host-queried
  selection range of the editor, if there is one.
\<close>

definition getLiveRange :: "EditorCore \<Rightarrow> domRange option" where
  "getLiveRange core = liveRange core"

fun firstLeaf :: "node \<Rightarrow> node" where
  "firstLeaf (Node i t g v []) = Node i t g v []"
| "firstLeaf (Node i t g v (c # cs)) = firstLeaf c"

fun lastLeaf :: "node \<Rightarrow> node" and lastLeafOf :: "node \<Rightarrow> node list \<Rightarrow> node" where
  "lastLeaf (Node i t g v cs) = lastLeafOf (Node i t g v cs) cs"
| "lastLeafOf d [] = d"
| "lastLeafOf d [c] = lastLeaf c"
| "lastLeafOf d (c # c' # cs) = lastLeafOf d (c' # cs)"

text \<open>
  Modelled from the spec: \<open>getFirstLeafNode\<close> and \<open>getLastLeafNode\<close> are missing;
  they give the first and the last leaf below a root, and nothing for a root without
  children.
\<close>

definition getFirstLeafNode :: "node \<Rightarrow> node option" where
  "getFirstLeafNode rootNode = map_option firstLeaf (firstChild rootNode)"

definition getLastLeafNode :: "node \<Rightarrow> node option" where
  "getLastLeafNode rootNode = map_option lastLeaf (lastChild rootNode)"

text \<open>
  Modelled from the spec: \<open>getTagOfNode\<close> is missing; it is the tag of an element
  (upper case) and the empty string for any other node.
\<close>

definition getTagOfNode :: "node \<Rightarrow> string" where
  "getTagOfNode n = (if nodeType n = Element then tagName n else [])"

text \<open>
  Modelled from the spec: \<open>contains\<close> is missing; a container contains the nodes
  below it.
\<close>

definition contains :: "node \<Rightarrow> nat \<Rightarrow> nat \<Rightarrow> bool" where
  "contains doc container inner =
     (case findNode container doc of
        None \<Rightarrow> False
      | Some c \<Rightarrow> inner \<in> set (idsl (childNodes c)))"

text \<open>
  Modelled from the spec: \<open>wrap\<close> is missing; it wraps a node in a minimal block
  container: a new element made from the markup takes the place of the node and the
  node becomes its only child. A node that is not in the document (an emptied fragment)
  leaves the document as it is.
\<close>

definition wrap :: "node \<Rightarrow> node \<Rightarrow> (nat \<Rightarrow> node) \<Rightarrow> nat \<Rightarrow> node" where
  "wrap doc n html fresh =
     (case updFirst (nid n) (\<lambda>x. setChildNodes [x] (html fresh)) doc of
        None \<Rightarrow> doc
      | Some doc' \<Rightarrow> doc')"

definition toUpperCase :: "string \<Rightarrow> string" where
  "toUpperCase s =
     map (\<lambda>c. case map_of (zip ''abcdefghijklmnopqrstuvwxyz'' ''ABCDEFGHIJKLMNOPQRSTUVWXYZ'') c of
                 Some u \<Rightarrow> u | None \<Rightarrow> c) s"

text \<open>
  Modelled from the spec: \<open>changeElementTag\<close> is missing; it retypes a container: a
  new element with the new tag takes over the children and the place of the old one,
  and is returned.
\<close>

definition changeElementTag :: "node \<Rightarrow> node \<Rightarrow> string \<Rightarrow> nat \<Rightarrow> node \<times> node" where
  "changeElementTag doc element newTag fresh =
     (let newElement = Node fresh Element (toUpperCase newTag) [] (childNodes element)
      in (case updFirst (nid element) (\<lambda>x. newElement) doc of
            None \<Rightarrow> (doc, newElement)
          | Some doc' \<Rightarrow> (doc', newElement)))"

text \<open>
  The host keeps a live range valid while the tree changes. When the children of an
  element are moved out and the element is replaced, a boundary inside the element,
  or right behind it in its parent, ends up in the parent right in front of the
  replacement; every other boundary stays.
\<close>

definition liveBoundary :: "node \<Rightarrow> node \<Rightarrow> nat \<times> nat \<Rightarrow> nat \<times> nat" where
  "liveBoundary doc element b =
     (case parentOf (nid element) doc of
        None \<Rightarrow> b
      | Some p \<Rightarrow>
          if fst b \<in> set (ids element) then (nid p, indexOfChild (nid element) p)
          else if fst b = nid p \<and> snd b = Suc (indexOfChild (nid element) p)
            then (nid p, indexOfChild (nid element) p)
          else b)"

definition liveRangeAfterRetype :: "node \<Rightarrow> node \<Rightarrow> domRange \<Rightarrow> domRange" where
  "liveRangeAfterRetype doc element r =
     (let s = liveBoundary doc element (startContainer r, startOffset r);
          e = liveBoundary doc element (endContainer r, endOffset r)
      in \<lparr>startContainer = fst s, startOffset = snd s, endContainer = fst e, endOffset = snd e\<rparr>)"

text \<open>
  Modelled from the spec: \<open>SelectionRange\<close> and its \<open>normalize\<close> are missing. A
  \<open>SelectionRange\<close> made from a range is a copy of its two boundaries, and
  \<open>getRange\<close> gives a range with these boundaries back. Normalizing resolves a
  boundary to a leaf: a text node or a container without children stays (with offset 0
  for the latter); otherwise the boundary moves to the first leaf of the child at the
  offset, or to the end of the last leaf when the offset is behind the last child.
\<close>

definition normalizePosition :: "node \<Rightarrow> nat \<times> nat \<Rightarrow> nat \<times> nat" where
  "normalizePosition doc b =
     (case findNode (fst b) doc of
        None \<Rightarrow> b
      | Some n \<Rightarrow>
          if nodeType n = Text then b
          else if childNodes n = [] then (fst b, 0)
          else if snd b < length (childNodes n)
            then (nid (firstLeaf (childNodes n ! snd b)), 0)
          else (let l = lastLeaf n
                in (nid l, if nodeType l = Text then length (nodeValue l) else 0)))"

definition normalize :: "node \<Rightarrow> domRange \<Rightarrow> domRange" where
  "normalize doc r =
     (let s = normalizePosition doc (startContainer r, startOffset r);
          e = normalizePosition doc (endContainer r, endOffset r)
      in \<lparr>startContainer = fst s, startOffset = snd s, endContainer = fst e, endOffset = snd e\<rparr>)"

text \<open>
  Modelled from the spec: \<open>select\<close> is missing; it makes a range the selection and
  returns false, changing nothing, if the target cannot be resolved into a valid range
  within the root. A range is valid within the root when both containers are the root
  or below it, each offset is within its container (at most the number of children, or
  of characters in a text node) and the start is not behind the end. Selecting a node
  with \<open>Position.After\<close> is the collapsed range right behind the node in its parent
  (\<open>cursorAfter\<close>).
\<close>

definition inEditor :: "EditorCore \<Rightarrow> nat \<Rightarrow> bool" where
  "inEditor core i = (i = contentDiv core \<or> contains (document core) (contentDiv core) i)"

definition validBoundary :: "node \<Rightarrow> nat \<times> nat \<Rightarrow> bool" where
  "validBoundary doc b =
     (case findNode (fst b) doc of
        None \<Rightarrow> False
      | Some x \<Rightarrow>
          snd b \<le> (if nodeType x = Text then length (nodeValue x) else length (childNodes x)))"

definition selectable :: "EditorCore \<Rightarrow> domRange \<Rightarrow> bool" where
  "selectable core r =
     (inEditor core (startContainer r) \<and> inEditor core (endContainer r) \<and>
      validBoundary (document core) (startContainer r, startOffset r) \<and>
      validBoundary (document core) (endContainer r, endOffset r) \<and>
      (case selectionGaps (document core) r of
         None \<Rightarrow> False
       | Some (gs, ge) \<Rightarrow> pathLe gs ge))"

definition select_range :: "EditorCore \<Rightarrow> domRange \<Rightarrow> EditorCore \<times> bool" where
  "select_range core r =
     (if selectable core r then (core\<lparr>liveRange := Some r\<rparr>, True) else (core, False))"

definition cursorAfter :: "node \<Rightarrow> node \<Rightarrow> domRange option" where
  "cursorAfter doc n =
     (case parentOf (nid n) doc of
        None \<Rightarrow> None
      | Some p \<Rightarrow>
          Some \<lparr>startContainer = nid p, startOffset = Suc (indexOfChild (nid n) p),
                endContainer = nid p, endOffset = Suc (indexOfChild (nid n) p)\<rparr>)"

definition select_after :: "EditorCore \<Rightarrow> node \<Rightarrow> EditorCore \<times> bool" where
  "select_after core n =
     (case cursorAfter (document core) n of
        None \<Rightarrow> (core, False)
      | Some r \<Rightarrow> select_range core r)"

section \<open>insertNode\<close>

text \<open>
  The final check of \<open>insertNodeAtBegin\<close> and \<open>insertNodeAtEnd\<close> (the same three
  lines in both): if the inserted node, as returned by the host, is not a block and the
  ask is to insert on a new line, add a DIV wrapping.
\<close>

definition finishOnNewLine :: "api \<Rightarrow> EditorCore \<Rightarrow> InsertOption \<Rightarrow> node \<times> node \<Rightarrow> EditorCore" where
  "finishOnNewLine a core option r =
     (case r of (doc1, insertedNode) \<Rightarrow>
        if insertOnNewLine option \<and> \<not> isBlockElement a insertedNode
        then core\<lparr>document := wrap doc1 insertedNode HTML_EMPTY_DIV (nextId core),
                  nextId := Suc (nextId core)\<rparr>
        else core\<lparr>document := doc1\<rparr>)"

definition insertNodeAtBegin :: "api \<Rightarrow> EditorCore \<Rightarrow> node \<Rightarrow> InsertOption \<Rightarrow> domError + EditorCore" where
  "insertNodeAtBegin a core n option =
     (case findNode (contentDiv core) (document core) of
        None \<Rightarrow> Inl NotInDocument
      | Some contentDivNode \<Rightarrow>
          (case (case getBlockElementAtNode a (document core) (contentDiv core)
                        (map_option nid (getFirstLeafNode contentDivNode)) of
                   Some firstBlock \<Rightarrow>
                     (case findNode (startNode firstBlock) (document core) of
                        None \<Rightarrow> Inl NotInDocument
                      | Some refNode \<Rightarrow>
                          (let refParentNode = parentOf (nid refNode) (document core)
                           in if insertOnNewLine option
                              then insertBefore (document core) refParentNode n (Some (nid refNode))
                              else if firstChild refNode \<noteq> None
                              then insertBefore (document core) (Some refNode) n
                                     (map_option nid (firstChild refNode))
                              else if nodeType refNode = Text \<or> isVoidHtmlElement a refNode
                              then insertBefore (document core) refParentNode n (Some (nid refNode))
                              else appendChild (document core) (Some refNode) n))
                 | None \<Rightarrow> appendChild (document core) (Some contentDivNode) n) of
             Inl e \<Rightarrow> Inl e
           | Inr r \<Rightarrow> Inr (finishOnNewLine a core option r)))"

definition insertNodeAtEnd :: "api \<Rightarrow> EditorCore \<Rightarrow> node \<Rightarrow> InsertOption \<Rightarrow> domError + EditorCore" where
  "insertNodeAtEnd a core n option =
     (case findNode (contentDiv core) (document core) of
        None \<Rightarrow> Inl NotInDocument
      | Some contentDivNode \<Rightarrow>
          (case (case getBlockElementAtNode a (document core) (contentDiv core)
                        (map_option nid (getLastLeafNode contentDivNode)) of
                   Some lastBlock \<Rightarrow>
                     (case findNode (endNode lastBlock) (document core) of
                        None \<Rightarrow> Inl NotInDocument
                      | Some refNode \<Rightarrow>
                          (let refParentNode = parentOf (nid refNode) (document core)
                           in if insertOnNewLine option
                              then insertBefore (document core) refParentNode n
                                     (map_option nid (nextSibling (document core) (nid refNode)))
                              else if lastChild refNode \<noteq> None
                              then appendChild (document core) (Some refNode) n
                              else if nodeType refNode = Text \<or> isVoidHtmlElement a refNode
                              then insertBefore (document core) refParentNode n
                                     (map_option nid (nextSibling (document core) (nid refNode)))
                              else appendChild (document core) (Some refNode) n))
                 | None \<Rightarrow> appendChild (document core) (Some contentDivNode) n) of
             Inl e \<Rightarrow> Inl e
           | Inr r \<Rightarrow> Inr (finishOnNewLine a core option r)))"

text \<open>
  \<open>insertNodeAtSelection\<close>, in the order of the source: the range is the live one or
  else the cached one (\<open>resolveRange\<close>); the contents of the selection are deleted if
  asked (\<open>deleteSelection\<close>), and the range as it is then is the clone kept for later;
  the insertion point is adjusted to the block (\<open>insertionPoint\<close>: behind the block
  for a new line, or the paragraph retyped with the guarded remapping of the range,
  where \<open>remapAllowed\<close> is the guard); the node is inserted and the selection is set.

  The range object that was resolved stays the host's: \<open>rangeObject\<close> is what the
  adjustment of the insertion point has made of it, and whether it is still the range
  used for the insertion (after a remapping the insertion uses a new range);
  \<open>rangeLeftByHost\<close> is what it is after the insertion. \<open>keepRange\<close> puts it back
  where it came from: it is the selection when it was the live range, and the cached
  range otherwise. (The range that was not resolved is not followed.)
\<close>

definition resolveRange :: "EditorCore \<Rightarrow> domRange option" where
  "resolveRange core = (case getLiveRange core of Some r \<Rightarrow> Some r | None \<Rightarrow> cachedRange core)"

definition deleteSelection :: "EditorCore \<Rightarrow> InsertOption \<Rightarrow> domRange \<Rightarrow> node \<times> domRange" where
  "deleteSelection core option rawRange =
     (if replaceSelection option \<and> \<not> collapsed rawRange
      then Range_deleteContents (document core) rawRange
      else (document core, rawRange))"

definition remapAllowed :: "EditorCore \<Rightarrow> node \<Rightarrow> node \<Rightarrow> domRange \<Rightarrow> bool" where
  "remapAllowed core doc2 newDiv rangeCache =
     (startContainer rangeCache \<noteq> nid newDiv \<and> endContainer rangeCache \<noteq> nid newDiv \<and>
      contains doc2 (contentDiv core) (startContainer rangeCache) \<and>
      contains doc2 (contentDiv core) (endContainer rangeCache))"

definition insertionPoint ::
  "api \<Rightarrow> EditorCore \<Rightarrow> InsertOption \<Rightarrow> node \<times> domRange \<Rightarrow> domError + node \<times> nat \<times> domRange" where
  "insertionPoint a core option dr =
     (case dr of (doc1, rawRange) \<Rightarrow>
        (case getBlockElementAtNode a doc1 (contentDiv core) (Some (startContainer rawRange)) of
           None \<Rightarrow> Inr (doc1, nextId core, rawRange)
         | Some blockElement \<Rightarrow>
             (case findNode (endNode blockElement) doc1 of
                None \<Rightarrow> Inl NotInDocument
              | Some endN \<Rightarrow>
                  if insertOnNewLine option then
                    (case Range_setEndAfter doc1 rawRange (nid endN) of
                       Inl e \<Rightarrow> Inl e
                     | Inr r \<Rightarrow> Inr (doc1, nextId core, Range_collapse r False))
                  else if getTagOfNode endN = ''P'' then
                    (let rangeCache = normalize doc1 rawRange;
                         (doc2, newDiv) = changeElementTag doc1 endN ''div'' (nextId core)
                     in if remapAllowed core doc2 newDiv rangeCache
                        then Inr (doc2, Suc (nextId core), rangeCache)
                        else Inr (doc2, Suc (nextId core), liveRangeAfterRetype doc1 endN rawRange))
                  else Inr (doc1, nextId core, rawRange))))"

definition nodeForCursor :: "node \<Rightarrow> node option" where
  "nodeForCursor n = (if nodeType n = DocumentFragment then lastChild n else Some n)"

definition rangeObject :: "api \<Rightarrow> EditorCore \<Rightarrow> InsertOption \<Rightarrow> node \<times> domRange \<Rightarrow> domRange \<times> bool" where
  "rangeObject a core option dr =
     (case dr of (doc1, rawRange) \<Rightarrow>
        (case getBlockElementAtNode a doc1 (contentDiv core) (Some (startContainer rawRange)) of
           None \<Rightarrow> (rawRange, True)
         | Some blockElement \<Rightarrow>
             (case findNode (endNode blockElement) doc1 of
                None \<Rightarrow> (rawRange, True)
              | Some endN \<Rightarrow>
                  if insertOnNewLine option then
                    (case Range_setEndAfter doc1 rawRange (nid endN) of
                       Inl e \<Rightarrow> (rawRange, True)
                     | Inr r \<Rightarrow> (Range_collapse r False, True))
                  else if getTagOfNode endN = ''P'' then
                    (let rangeCache = normalize doc1 rawRange;
                         (doc2, newDiv) = changeElementTag doc1 endN ''div'' (nextId core)
                     in (liveRangeAfterRetype doc1 endN rawRange,
                         \<not> remapAllowed core doc2 newDiv rangeCache))
                  else (rawRange, True))))"

definition rangeLeftByHost :: "api \<Rightarrow> EditorCore \<Rightarrow> node \<Rightarrow> InsertOption \<Rightarrow> domRange \<Rightarrow> domRange" where
  "rangeLeftByHost a core n option rawRange =
     (let dr = deleteSelection core option rawRange
      in (case insertionPoint a core option dr of
            Inl e \<Rightarrow> fst (rangeObject a core option dr)
          | Inr (doc2, fresh, rawRange2) \<Rightarrow>
              rangeAfterInsertNode (snd (rangeObject a core option dr)) doc2 fresh rawRange2 n
                (fst (rangeObject a core option dr))))"

definition keepRange :: "EditorCore \<Rightarrow> domRange \<Rightarrow> EditorCore" where
  "keepRange core r =
     (case getLiveRange core of
        Some live \<Rightarrow> core\<lparr>liveRange := Some r\<rparr>
      | None \<Rightarrow> core\<lparr>cachedRange := Some r\<rparr>)"

definition insertNodeAtSelection :: "api \<Rightarrow> EditorCore \<Rightarrow> node \<Rightarrow> InsertOption \<Rightarrow> domError + EditorCore" where
  "insertNodeAtSelection a core n option =
     (case resolveRange core of
        None \<Rightarrow> Inr core
      | Some rawRange \<Rightarrow>
          (let dr = deleteSelection core option rawRange;
               clonedRange = snd dr
           in (case insertionPoint a core option dr of
                 Inl e \<Rightarrow> Inl e
               | Inr (doc2, fresh, rawRange2) \<Rightarrow>
                   (case Range_insertNode doc2 fresh rawRange2 n of
                      Inl e \<Rightarrow> Inl e
                    | Inr (doc3, fresh3) \<Rightarrow>
                        (let core3 = (keepRange core (rangeLeftByHost a core n option rawRange))
                                       \<lparr>document := doc3, nextId := fresh3\<rparr>
                         in (case nodeForCursor n of
                               Some c \<Rightarrow>
                                 if updateCursor option then Inr (fst (select_after core3 c))
                                 else Inr (fst (select_range core3 clonedRange))
                             | None \<Rightarrow> Inr (fst (select_range core3 clonedRange))))))))"

definition applyFocus :: "api \<Rightarrow> EditorCore \<Rightarrow> EditorCore" where
  "applyFocus a core = core\<lparr>liveRange := fst (focus a core), cachedRange := snd (focus a core)\<rparr>"

definition focusIfAsked :: "api \<Rightarrow> EditorCore \<Rightarrow> InsertOption \<Rightarrow> EditorCore" where
  "focusIfAsked a core option = (if updateCursor option then applyFocus a core else core)"

definition defaultOption :: InsertOption where
  "defaultOption =
     \<lparr>position = SelectionStart, updateCursor = True, replaceSelection = True,
      insertOnNewLine = False\<rparr>"

text \<open>
  \<open>insertNode\<close> returns the boolean of the source together with the core after the
  call, or the error the host raised.
\<close>

definition insertNode :: "api \<Rightarrow> EditorCore \<Rightarrow> node \<Rightarrow> InsertOption option \<Rightarrow> domError + bool \<times> EditorCore" where
  "insertNode a core0 n opt =
     (let option = (case opt of Some given \<Rightarrow> given | None \<Rightarrow> defaultOption);
          core = focusIfAsked a core0 option
      in (case (case position option of
                  Begin \<Rightarrow> insertNodeAtBegin a core n option
                | End \<Rightarrow> insertNodeAtEnd a core n option
                | SelectionStart \<Rightarrow> insertNodeAtSelection a core n option
                | Outside \<Rightarrow>
                    (case insertBefore (document core) (parentOf (contentDiv core) (document core)) n
                            (map_option nid (nextSibling (document core) (contentDiv core))) of
                       Inl e \<Rightarrow> Inl e
                     | Inr r \<Rightarrow> Inr (core\<lparr>document := fst r\<rparr>))) of
            Inl e \<Rightarrow> Inl e
          | Inr core' \<Rightarrow> Inr (True, core')))"

definition rootChildren :: "EditorCore \<Rightarrow> node list" where
  "rootChildren core =
     (case findNode (contentDiv core) (document core) of None \<Rightarrow> [] | Some r \<Rightarrow> childNodes r)"

text \<open>
  An invariant of the representation. In the host a node is its own identity; here
  identities are numbers, and a state is well formed when no two nodes of the document
  and no two nodes of the tree handed to the insertion have the same identity, and the
  identity that the next new node takes is above all of them.
\<close>

definition uniqueIdentities :: "EditorCore \<Rightarrow> node \<Rightarrow> bool" where
  "uniqueIdentities core n =
     (distinct (ids (document core)) \<and> distinct (ids n) \<and>
      (\<forall>i\<in>set (ids (document core)) \<union> set (ids n). i < nextId core))"

section \<open>One choice of the missing helpers, and concrete documents\<close>

text \<open>
  Modelled from the spec: \<open>isBlockElement\<close> and \<open>isVoidHtmlElement\<close> are missing;
  here an element is block-level, or void, by its tag.
\<close>

definition blockTags :: "string list" where
  "blockTags = [''ADDRESS'', ''ARTICLE'', ''ASIDE'', ''BLOCKQUOTE'', ''DD'', ''DIV'', ''DL'', ''DT'',
     ''FIELDSET'', ''FIGCAPTION'', ''FIGURE'', ''FOOTER'', ''FORM'', ''H1'', ''H2'', ''H3'', ''H4'',
     ''H5'', ''H6'', ''HEADER'', ''HR'', ''LI'', ''MAIN'', ''NAV'', ''OL'', ''P'', ''PRE'', ''SECTION'',
     ''TABLE'', ''TD'', ''TH'', ''UL'']"

definition voidTags :: "string list" where
  "voidTags = [''AREA'', ''BASE'', ''BR'', ''COL'', ''EMBED'', ''HR'', ''IMG'', ''INPUT'', ''LINK'',
     ''META'', ''PARAM'', ''SOURCE'', ''TRACK'', ''WBR'']"

definition blockByTag :: "node \<Rightarrow> bool" where
  "blockByTag n = (getTagOfNode n \<in> set blockTags)"

definition voidByTag :: "node \<Rightarrow> bool" where
  "voidByTag n = (getTagOfNode n \<in> set voidTags)"

text \<open>
  Modelled from the spec: \<open>getBlockElementAtNode\<close> is missing; it walks upward from
  the node until it finds the block boundary and returns null if the node is outside
  the root. Here the walk stops at the nearest block-level element below the root, or
  else at the topmost ancestor below the root, and that node is both the start and the
  end of the block.
\<close>

fun nearestBlock :: "(node \<Rightarrow> bool) \<Rightarrow> node \<Rightarrow> nat list \<Rightarrow> nat option" where
  "nearestBlock isBlock doc [] = None"
| "nearestBlock isBlock doc (i # up) =
     (case findNode i doc of
        None \<Rightarrow> None
      | Some n \<Rightarrow> if isBlock n \<or> up = [] then Some i else nearestBlock isBlock doc up)"

definition blockAtNode :: "(node \<Rightarrow> bool) \<Rightarrow> node \<Rightarrow> nat \<Rightarrow> nat option \<Rightarrow> BlockElement option" where
  "blockAtNode isBlock doc rootNode target =
     (case target of
        None \<Rightarrow> None
      | Some i \<Rightarrow>
          if \<not> contains doc rootNode i then None
          else (case findNode rootNode doc of
                  None \<Rightarrow> None
                | Some r \<Rightarrow>
                    (case nearestBlock isBlock r (rev (tl (pathTo i r))) of
                       None \<Rightarrow> None
                     | Some b \<Rightarrow> Some \<lparr>startNode = b, endNode = b\<rparr>)))"

text \<open>An editor whose \<open>focus\<close> leaves the selection as it is.\<close>

definition noFocus :: api where
  "noFocus = \<lparr>focus = (\<lambda>core. (liveRange core, cachedRange core)),
     getBlockElementAtNode = blockAtNode blockByTag,
     isBlockElement = blockByTag, isVoidHtmlElement = voidByTag\<rparr>"

text \<open>
  The documents of the scenarios: a body (0) that holds the content root (1). In
  \<open>helloDoc\<close> the root holds a DIV (2) with the text hello (3).
\<close>

definition helloDoc :: node where
  "helloDoc = Node 0 Element ''BODY'' [] [Node 1 Element ''DIV'' []
                 [Node 2 Element ''DIV'' [] [Node 3 Text [] ''hello'' []]]]"

definition helloCore :: EditorCore where
  "helloCore = \<lparr>document = helloDoc, contentDiv = 1, liveRange = None, cachedRange = None, nextId = 20\<rparr>"

definition textX :: node where
  "textX = Node 10 Text [] ''X'' []"

definition opt :: "ContentPosition \<Rightarrow> bool \<Rightarrow> bool \<Rightarrow> bool \<Rightarrow> InsertOption" where
  "opt p u r l = \<lparr>position = p, updateCursor = u, replaceSelection = r, insertOnNewLine = l\<rparr>"

definition fragX :: node where
  "fragX = Node 11 DocumentFragment [] [] [Node 10 Text [] ''X'' []]"

definition fragXY :: node where
  "fragXY = Node 11 DocumentFragment [] [] [Node 10 Text [] ''X'' [], Node 12 Text [] ''Y'' []]"

definition emptyFragment :: node where
  "emptyFragment = Node 11 DocumentFragment [] [] []"

definition emptyCore :: EditorCore where
  "emptyCore = \<lparr>document = Node 0 Element ''BODY'' [] [Node 1 Element ''DIV'' [] []],
     contentDiv = 1, liveRange = None, cachedRange = None, nextId = 20\<rparr>"

text \<open>An empty paragraph with the caret in it, and a paragraph with the caret in its text.\<close>

definition paragraphCore :: EditorCore where
  "paragraphCore =
     \<lparr>document = Node 0 Element ''BODY'' [] [Node 1 Element ''DIV'' [] [Node 2 Element ''P'' [] []]],
      contentDiv = 1,
      liveRange = Some \<lparr>startContainer = 2, startOffset = 0, endContainer = 2, endOffset = 0\<rparr>,
      cachedRange = None, nextId = 20\<rparr>"

definition paragraphTextCore :: EditorCore where
  "paragraphTextCore =
     \<lparr>document = Node 0 Element ''BODY'' []
        [Node 1 Element ''DIV'' [] [Node 2 Element ''P'' [] [Node 3 Text [] ''hello'' []]]],
      contentDiv = 1,
      liveRange = Some \<lparr>startContainer = 3, startOffset = 2, endContainer = 3, endOffset = 2\<rparr>,
      cachedRange = None, nextId = 20\<rparr>"

definition paragraphTextResult :: EditorCore where
  "paragraphTextResult =
     \<lparr>document = Node 0 Element ''BODY'' []
          [Node 1 Element ''DIV'' []
            [Node 20 Element ''DIV'' []
              [Node 3 Text [] ''he'' [], Node 10 Text [] ''X'' [], Node 21 Text [] ''llo'' []]]],
      contentDiv = 1,
      liveRange = Some \<lparr>startContainer = 20, startOffset = 2, endContainer = 20, endOffset = 2\<rparr>,
      cachedRange = None, nextId = 22\<rparr>"

text \<open>The text hello with "ell" selected, and with the caret behind "he".\<close>

definition selectedCore :: EditorCore where
  "selectedCore =
     helloCore\<lparr>liveRange := Some \<lparr>startContainer = 3, startOffset = 1, endContainer = 3, endOffset = 4\<rparr>\<rparr>"

definition selectedResult :: EditorCore where
  "selectedResult =
     \<lparr>document = Node 0 Element ''BODY'' []
          [Node 1 Element ''DIV'' []
            [Node 2 Element ''DIV'' []
              [Node 3 Text [] ''h'' [], Node 10 Text [] ''X'' [],
               Node 12 Text [] ''Y'' [], Node 20 Text [] ''o'' []]]],
         contentDiv = 1,
         liveRange = Some \<lparr>startContainer = 2, startOffset = 3, endContainer = 2, endOffset = 3\<rparr>,
         cachedRange = None, nextId = 21\<rparr>"

definition caretCore :: EditorCore where
  "caretCore =
     helloCore\<lparr>liveRange := Some \<lparr>startContainer = 3, startOffset = 2, endContainer = 3, endOffset = 2\<rparr>\<rparr>"



text \<open>
  A DIV with the text ab, a SPAN with the text cd, and the text ef. In \<open>richCore\<close> the
  selection reaches from behind a to behind e; in \<open>spanCore\<close> the letter a is
  selected, and \<open>spanNode\<close> is the SPAN of the document.
\<close>

definition richDoc :: node where
  "richDoc = Node 0 Element ''BODY'' [] [Node 1 Element ''DIV'' []
      [Node 2 Element ''DIV'' []
        [Node 3 Text [] ''ab'' [], Node 4 Element ''SPAN'' [] [Node 5 Text [] ''cd'' []],
         Node 6 Text [] ''ef'' []]]]"

definition richCore :: EditorCore where
  "richCore = \<lparr>document = richDoc, contentDiv = 1,
     liveRange = Some \<lparr>startContainer = 3, startOffset = 1, endContainer = 6, endOffset = 1\<rparr>,
     cachedRange = None, nextId = 20\<rparr>"

definition richResult :: EditorCore where
  "richResult =
     \<lparr>document = Node 0 Element ''BODY'' []
          [Node 1 Element ''DIV'' []
            [Node 2 Element ''DIV'' []
              [Node 3 Text [] ''a'' [], Node 10 Text [] ''X'' [], Node 6 Text [] ''f'' []]]],
      contentDiv = 1,
      liveRange = Some \<lparr>startContainer = 2, startOffset = 2, endContainer = 2, endOffset = 2\<rparr>,
      cachedRange = None, nextId = 20\<rparr>"

definition spanNode :: node where
  "spanNode = Node 4 Element ''SPAN'' [] [Node 5 Text [] ''cd'' []]"

definition spanCore :: EditorCore where
  "spanCore =
     richCore\<lparr>liveRange := Some \<lparr>startContainer = 3, startOffset = 0, endContainer = 3, endOffset = 1\<rparr>\<rparr>"

definition spanResult :: EditorCore where
  "spanResult =
     \<lparr>document = Node 0 Element ''BODY'' []
          [Node 1 Element ''DIV'' []
            [Node 2 Element ''DIV'' []
              [Node 3 Text [] [] [], Node 4 Element ''SPAN'' [] [Node 5 Text [] ''cd'' []],
               Node 20 Text [] ''b'' [], Node 6 Text [] ''ef'' []]]],
      contentDiv = 1,
      liveRange = Some \<lparr>startContainer = 2, startOffset = 2, endContainer = 2, endOffset = 2\<rparr>,
      cachedRange = None, nextId = 21\<rparr>"

section \<open>Properties of the current-editor holder\<close>

text \<open>
  C10. For every call \<open>setCurrentEditor newEditor\<close>: afterwards \<open>getCurrentEditor\<close>
  returns \<open>newEditor\<close>; if an editor was set before, \<open>dispose()\<close> has been called on
  it exactly once more, at a moment when it still was the current editor (so before the
  replacement); if none was set, no \<open>dispose()\<close> call is made.
\<close>

theorem setCurrentEditor_disposes_previous_once:
  "getCurrentEditor (setCurrentEditor newEditor h) = newEditor \<and>
   (\<forall>old. editor h = Some old \<longrightarrow>
      disposeCalls (setCurrentEditor newEditor h) = disposeCalls h @ [(old, Some old)]) \<and>
   (editor h = None \<longrightarrow> disposeCalls (setCurrentEditor newEditor h) = disposeCalls h)"
  by (simp add: setCurrentEditor_def getCurrentEditor_def dispose_def)

theorem setCurrentEditor_disposes_previous_once_witness:
  "getCurrentEditor (setCurrentEditor (Some 2) \<lparr>editor = Some 1, disposeCalls = []\<rparr>) = Some 2 \<and>
   disposeCalls (setCurrentEditor (Some 2) \<lparr>editor = Some 1, disposeCalls = []\<rparr>) = [(1, Some 1)] \<and>
   disposeCalls (setCurrentEditor (Some 2) \<lparr>editor = None, disposeCalls = []\<rparr>) = []"
  using setCurrentEditor_disposes_previous_once [of "Some 2" "\<lparr>editor = Some 1, disposeCalls = []\<rparr>"]
    setCurrentEditor_disposes_previous_once [of "Some 2" "\<lparr>editor = None, disposeCalls = []\<rparr>"]
  by simp

section \<open>Properties of the undo-snapshot transaction\<close>

text \<open>
  Inside a transaction nothing is captured and nothing is emitted, whatever is run: a
  nested call, a callback, a list of steps or one step.
\<close>

lemma in_transaction_quiet:
  "0 < depth s \<Longrightarrow> snapshots (fst (addUndoSnapshot cbo src s)) = snapshots s \<and>
      notifications (fst (addUndoSnapshot cbo src s)) = notifications s \<and>
      depth (fst (addUndoSnapshot cbo src s)) = depth s"
  "0 < depth s \<Longrightarrow> snapshots (fst (runCallback cb s)) = snapshots s \<and>
      notifications (fst (runCallback cb s)) = notifications s \<and>
      depth (fst (runCallback cb s)) = depth s"
  "0 < depth s \<Longrightarrow> snapshots (fst (runSteps xs s)) = snapshots s \<and>
      notifications (fst (runSteps xs s)) = notifications s \<and>
      depth (fst (runSteps xs s)) = depth s"
  "0 < depth s \<Longrightarrow> snapshots (fst (runStep x s)) = snapshots s \<and>
      notifications (fst (runStep x s)) = notifications s \<and>
      depth (fst (runStep x s)) = depth s"
proof (induction cbo src s and cb s and xs s and x s
       rule: addUndoSnapshot_runCallback_runSteps_runStep.induct)
  case (1 changeSource s)
  then show ?case by simp
next
  case (2 cb changeSource s)
  then show ?case by simp
next
  case (3 steps result s)
  then show ?case by (auto simp: Let_def split: prod.splits)
next
  case (4 s)
  then show ?case by simp
next
  case (5 x xs s)
  then show ?case by (auto simp: Let_def split: prod.splits)
next
  case (6 f s)
  then show ?case by simp
next
  case (7 cbo changeSource s)
  then show ?case by (auto simp: Let_def split: prod.splits)
next
  case (8 s)
  then show ?case by simp
qed

lemma demo_run:
  "addUndoSnapshot (Some (Callback demoSteps (\<lambda>c. ''outer:'' @ c))) (Some ''Format'') demoState =
    (\<lparr>tree = ''xabcd'', depth = 0, snapshots = [''x'', ''xabcd''],
      notifications = [\<lparr>source = ''Format'', payload = Some ''outer:xabcd'', seen = ''xabcd''\<rparr>]\<rparr>,
     Some ''outer:xabcd'', True)"
  by (simp add: demoSteps_def demoInner_def demoState_def)

text \<open>
  C5. An outermost \<open>addUndoSnapshot\<close> call (made when idle) with a callback and a change
  source, whose callback completes and may itself call \<open>addUndoSnapshot\<close> to any depth:
  exactly one notification is added, it carries the value the outer callback returned,
  it is emitted when the tree is in the state the callback left; exactly two snapshots
  are captured (before and after), so the inner calls capture none and emit nothing.
\<close>

theorem addUndoSnapshot_one_notification:
  assumes idle: "depth s = 0"
    and fin: "addUndoSnapshot (Some (Callback steps result)) (Some src) s = (s', r, True)"
  shows "notifications s' =
           notifications s @ [\<lparr>source = src, payload = Some (result (tree s')), seen = tree s'\<rparr>]
         \<and> r = Some (result (tree s'))
         \<and> tree s' = tree (fst (runSteps steps (s\<lparr>snapshots := snapshots s @ [tree s], depth := 1\<rparr>)))
         \<and> snapshots s' = snapshots s @ [tree s, tree s']
         \<and> depth s' = 0"
proof -
  let ?s1 = "s\<lparr>snapshots := snapshots s @ [tree s], depth := 1\<rparr>"
  obtain s2 ok where run: "runSteps steps ?s1 = (s2, ok)" by (cases "runSteps steps ?s1")
  have pos: "0 < depth ?s1" by simp
  from in_transaction_quiet(3)[OF pos, of steps] run
  have q: "snapshots s2 = snapshots s @ [tree s]" "notifications s2 = notifications s"
    by simp_all
  from fin idle run have ok: ok by (auto split: if_splits)
  from fin idle run ok have s': "s' = (s2\<lparr>snapshots := snapshots s2 @ [tree s2], depth := 0\<rparr>)
      \<lparr>notifications := notifications s2 @ [\<lparr>source = src, payload = Some (result (tree s2)), seen = tree s2\<rparr>]\<rparr>"
    and r: "r = Some (result (tree s2))"
    by (auto split: if_splits)
  show ?thesis using s' r q run by simp
qed

theorem addUndoSnapshot_one_notification_witness:
  "depth demoState = 0 \<and>
   notifications \<lparr>tree = ''xabcd'', depth = 0, snapshots = [''x'', ''xabcd''],
      notifications = [\<lparr>source = ''Format'', payload = Some ''outer:xabcd'', seen = ''xabcd''\<rparr>]\<rparr>
     = notifications demoState @ [\<lparr>source = ''Format'', payload = Some ''outer:xabcd'', seen = ''xabcd''\<rparr>]"
proof -
  have idle: "depth demoState = 0" by (simp add: demoState_def)
  from addUndoSnapshot_one_notification[OF idle demo_run] idle show ?thesis by simp
qed

section \<open>Facts about the content tree\<close>

lemma findNode_nid:
  "findNode i t = Some n \<Longrightarrow> nid n = i"
  "findNodes i ts = Some n \<Longrightarrow> nid n = i"
  by (induction i t and i ts rule: findNode_findNodes.induct) (auto split: if_splits option.splits)

lemma findNode_ids:
  "findNode i t = Some n \<Longrightarrow> set (ids n) \<subseteq> set (ids t)"
  "findNodes i ts = Some n \<Longrightarrow> set (ids n) \<subseteq> set (idsl ts)"
  by (induction i t and i ts rule: findNode_findNodes.induct) (auto split: if_splits option.splits)

lemma findNode_None:
  "i \<notin> set (ids t) \<Longrightarrow> findNode i t = None"
  "i \<notin> set (idsl ts) \<Longrightarrow> findNodes i ts = None"
  by (induction i t and i ts rule: findNode_findNodes.induct) (auto split: if_splits option.splits)

lemma findNode_self: "nid t = i \<Longrightarrow> findNode i t = Some t"
  by (cases t) simp

lemma updFirst_None:
  "(updFirst i f t = None) = (findNode i t = None)"
  "(updFirsts i f ts = None) = (findNodes i ts = None)"
  by (induction i f t and i f ts rule: updFirst_updFirsts.induct) (auto split: option.splits)

lemma updFirst_mset:
  "updFirst i f t = Some t' \<Longrightarrow>
     \<exists>n. findNode i t = Some n \<and> mset (ids t') + mset (ids n) = mset (ids t) + mset (ids (f n))"
  "updFirsts i f ts = Some ts' \<Longrightarrow>
     \<exists>n. findNodes i ts = Some n \<and> mset (idsl ts') + mset (ids n) = mset (idsl ts) + mset (ids (f n))"
proof (induction i f t and i f ts arbitrary: t' and ts' rule: updFirst_updFirsts.induct)
  case (1 i f j t g v cs)
  then show ?case by (auto split: if_splits)
next
  case (2 i f)
  then show ?case by simp
next
  case (3 i f c cs)
  then show ?case by (auto simp: updFirst_None split: option.splits)
qed

lemma idsl_append: "idsl (xs @ ys) = idsl xs @ idsl ys"
  by (induction xs) auto

lemma updFirst_Some_find:
  "updFirst i f t = Some t' \<Longrightarrow> \<exists>q. findNode i t = Some q"
  "updFirsts i f ts = Some ts' \<Longrightarrow> \<exists>q. findNodes i ts = Some q"
  using updFirst_None(1)[of i f t] updFirst_None(2)[of i f ts] by auto

lemma updFirst_find:
  "updFirst i f t = Some t' \<Longrightarrow> findNode i t = Some q \<Longrightarrow> nid (f q) = j \<Longrightarrow>
     j = i \<or> j \<notin> set (ids t) \<Longrightarrow> findNode j t' = Some (f q)"
  "updFirsts i f ts = Some ts' \<Longrightarrow> findNodes i ts = Some q \<Longrightarrow> nid (f q) = j \<Longrightarrow>
     j = i \<or> j \<notin> set (idsl ts) \<Longrightarrow> findNodes j ts' = Some (f q)"
proof (induction i f t and i f ts arbitrary: t' and ts' rule: updFirst_updFirsts.induct)
  case (1 i f k t g v cs)
  show ?case
  proof (cases "i = k")
    case True
    with 1 show ?thesis by (auto simp: findNode_self)
  next
    case False
    with 1(2) obtain cs' where cs': "updFirsts i f cs = Some cs'" and t': "t' = Node k t g v cs'"
      by auto
    from 1(3) False have fq: "findNodes i cs = Some q" by simp
    from 1(5) False have jk: "j \<noteq> k" and j: "j = i \<or> j \<notin> set (idsl cs)" by auto
    from 1(1)[OF False cs' fq 1(4) j] jk t' show ?thesis by simp
  qed
next
  case (2 i f)
  then show ?case by simp
next
  case (3 i f c cs)
  show ?case
  proof (cases "updFirst i f c")
    case (Some c')
    with 3(3) have ts': "ts' = c' # cs" by simp
    from Some obtain q0 where q0: "findNode i c = Some q0" using updFirst_Some_find(1) by blast
    with 3(4) have "q0 = q" by simp
    with q0 have fq: "findNode i c = Some q" by simp
    from 3(6) have j: "j = i \<or> j \<notin> set (ids c)" by auto
    from 3(1)[OF Some fq 3(5) j] ts' show ?thesis by simp
  next
    case None
    with 3(3) obtain z where z: "updFirsts i f cs = Some z" and ts': "ts' = c # z" by auto
    from None have nf: "findNode i c = None" by (simp add: updFirst_None)
    with 3(4) have fq: "findNodes i cs = Some q" by simp
    from 3(6) have j: "j = i \<or> j \<notin> set (idsl cs)" by auto
    have "findNode j c = None"
    proof (cases "j = i")
      case True with nf show ?thesis by simp
    next
      case False with 3(6) show ?thesis by (auto intro: findNode_None)
    qed
    with 3(2)[OF None z fq 3(5) j] ts' show ?thesis by simp
  qed
qed

lemma updFirst_compose:
  "updFirst i f t = Some t1 \<Longrightarrow> findNode i t = Some q \<Longrightarrow> j \<notin> set (ids t) \<Longrightarrow>
     updFirst j g (f q) = Some q' \<Longrightarrow> updFirst j g t1 = updFirst i (\<lambda>x. q') t"
  "updFirsts i f ts = Some ts1 \<Longrightarrow> findNodes i ts = Some q \<Longrightarrow> j \<notin> set (idsl ts) \<Longrightarrow>
     updFirst j g (f q) = Some q' \<Longrightarrow> updFirsts j g ts1 = updFirsts i (\<lambda>x. q') ts"
proof (induction i f t and i f ts arbitrary: t1 and ts1 rule: updFirst_updFirsts.induct)
  case (1 i f k t g' v cs)
  show ?case
  proof (cases "i = k")
    case True
    with 1 show ?thesis by auto
  next
    case False
    with 1(2) obtain cs' where cs': "updFirsts i f cs = Some cs'" and t1: "t1 = Node k t g' v cs'"
      by auto
    from 1(3) False have fq: "findNodes i cs = Some q" by simp
    from 1(4) have jk: "j \<noteq> k" and j: "j \<notin> set (idsl cs)" by auto
    from 1(1)[OF False cs' fq j 1(5)] jk t1 False show ?thesis by simp
  qed
next
  case (2 i f)
  then show ?case by simp
next
  case (3 i f c cs)
  from 3(5) have jc: "j \<notin> set (ids c)" and jcs: "j \<notin> set (idsl cs)" by auto
  show ?case
  proof (cases "updFirst i f c")
    case (Some c')
    with 3(3) have ts1: "ts1 = c' # cs" by simp
    from Some obtain q0 where q0: "findNode i c = Some q0" using updFirst_Some_find(1) by blast
    with 3(4) have "q0 = q" by simp
    with q0 have fq: "findNode i c = Some q" by simp
    have eq: "updFirst j g c' = updFirst i (\<lambda>x. q') c" by (rule 3(1)[OF Some fq jc 3(6)])
    from fq have "updFirst i (\<lambda>x. q') c \<noteq> None" by (simp add: updFirst_None)
    then obtain c2 where c2: "updFirst i (\<lambda>x. q') c = Some c2" by auto
    with eq ts1 show ?thesis by simp
  next
    case None
    with 3(3) obtain z where z: "updFirsts i f cs = Some z" and ts1: "ts1 = c # z" by auto
    from None have nf: "findNode i c = None" by (simp add: updFirst_None)
    with 3(4) have fq: "findNodes i cs = Some q" by simp
    have jn: "updFirst j g c = None" using jc by (simp add: updFirst_None findNode_None)
    have in': "updFirst i (\<lambda>x. q') c = None" using nf by (simp add: updFirst_None)
    from 3(2)[OF None z fq jcs 3(6)] ts1 jn in' show ?thesis by simp
  qed
qed

section \<open>Unfolding the model on concrete documents\<close>

lemmas dom_defs = insertBefore_def appendChild_def insertedNodes_def afterInsertion_def
  firstChild_def lastChild_def nextSibling_def indexOfChild_def collapsed_def
  Range_deleteContents_def positionAfterDelete_def Range_setEndAfter_def Range_collapse_def
  Range_insertNode_def selectionGaps_def behind_def inside_def insertionSite_def splitText_def
  referenceChild_def nodeNow_def movedNodes_def detach_def afterSplitText_def afterRemoval_def
  afterPlacing_def rangeAfterInsertNode_def

lemmas editor_defs = insertNode_def insertNodeAtBegin_def insertNodeAtEnd_def
  insertNodeAtSelection_def finishOnNewLine_def insertionPoint_def deleteSelection_def
  resolveRange_def getLiveRange_def remapAllowed_def nodeForCursor_def applyFocus_def focusIfAsked_def
  defaultOption_def getFirstLeafNode_def getLastLeafNode_def getTagOfNode_def contains_def
  wrap_def changeElementTag_def toUpperCase_def liveBoundary_def liveRangeAfterRetype_def
  normalizePosition_def normalize_def inEditor_def validBoundary_def selectable_def
  select_range_def cursorAfter_def select_after_def rangeObject_def rangeLeftByHost_def
  keepRange_def HTML_EMPTY_DIV_def rootChildren_def

lemmas instance_defs = noFocus_def blockAtNode_def blockByTag_def voidByTag_def blockTags_def
  voidTags_def helloDoc_def helloCore_def textX_def opt_def fragX_def fragXY_def emptyFragment_def emptyCore_def
  paragraphCore_def paragraphTextCore_def selectedCore_def caretCore_def richDoc_def richCore_def
  spanNode_def spanCore_def

section \<open>Insertion at the begin and at the end\<close>

lemma nid_setChildNodes: "nid (setChildNodes cs q) = nid q"
  by (cases q) simp

lemma childNodes_setChildNodes: "childNodes (setChildNodes cs q) = cs"
  by (cases q) simp

lemma ids_setChildNodes: "ids (setChildNodes cs q) = nid q # idsl cs"
  by (cases q) simp

lemma updFirst_self: "nid t = i \<Longrightarrow> updFirst i f t = Some (f t)"
  by (cases t) simp

lemma focusIfAsked_frame:
  "document (focusIfAsked a core option) = document core"
  "contentDiv (focusIfAsked a core option) = contentDiv core"
  "nextId (focusIfAsked a core option) = nextId core"
  by (simp_all add: focusIfAsked_def applyFocus_def)

lemma insertNode_SelectionStart:
  "position option = SelectionStart \<Longrightarrow>
   insertNode a core n (Some option) =
     (case insertNodeAtSelection a (focusIfAsked a core option) n option of
        Inl e \<Rightarrow> Inl e | Inr core' \<Rightarrow> Inr (True, core'))"
  by (simp add: insertNode_def)

text \<open>
  C1. A call at \<open>SelectionStart\<close> for which no range can be resolved (neither a live
  nor a cached range) changes nothing in the tree, and the boolean it returns is true:
  the source ends every call with \<open>return true\<close>. The claim, and the documentation
  of \<open>IEditor.insertNode\<close> (true if the node is inserted, otherwise false), say false.
\<close>

theorem insertNode_without_range_returns_true:
  assumes "position option = SelectionStart"
    and "resolveRange (focusIfAsked a core option) = None"
  shows "insertNode a core n (Some option) = Inr (True, focusIfAsked a core option)
         \<and> document (focusIfAsked a core option) = document core"
  using assms by (simp add: insertNode_SelectionStart insertNodeAtSelection_def focusIfAsked_frame)

theorem insertNode_without_range_returns_true_witness:
  "position (opt SelectionStart False True False) = SelectionStart \<and>
   resolveRange (focusIfAsked noFocus helloCore (opt SelectionStart False True False)) = None \<and>
   insertNode noFocus helloCore textX (Some (opt SelectionStart False True False)) = Inr (True, helloCore)"
proof -
  have p: "position (opt SelectionStart False True False) = SelectionStart" by (simp add: opt_def)
  have f: "focusIfAsked noFocus helloCore (opt SelectionStart False True False) = helloCore"
    by (simp add: focusIfAsked_def opt_def)
  have r: "resolveRange (focusIfAsked noFocus helloCore (opt SelectionStart False True False)) = None"
    unfolding f by (simp add: resolveRange_def getLiveRange_def helloCore_def)
  from insertNode_without_range_returns_true[OF p r, of textX] p r f show ?thesis by simp
qed

text \<open>
  C6. The root holds a DIV with the text hello, and the block found at that text is the
  DIV (as the source notes where it handles a start node with a first child). Inserting
  a new text node "X" at \<open>Begin\<close> with \<open>insertOnNewLine\<close> false, whatever
  the other two options and whatever \<open>focus\<close> does, puts the text node in front of
  hello inside the DIV.
\<close>

theorem insert_text_at_begin_of_hello:
  assumes blk: "getBlockElementAtNode a helloDoc 1 (Some 3) = Some \<lparr>startNode = 2, endNode = 2\<rparr>"
    and doc: "document core = helloDoc" and root: "contentDiv core = 1"
    and new: "x \<notin> set (ids helloDoc)"
    and opt: "position option = Begin" "\<not> insertOnNewLine option"
  shows "\<exists>core'. insertNode a core (Node x Text g ''X'' []) (Some option) = Inr (True, core') \<and>
           document core' =
             Node 0 Element ''BODY'' []
               [Node 1 Element ''DIV'' []
                 [Node 2 Element ''DIV'' [] [Node x Text g ''X'' [], Node 3 Text [] ''hello'' []]]]"
proof -
  from new have x2: "x \<noteq> 2" by (auto simp: helloDoc_def)
  show ?thesis
    using opt x2 blk doc root
    by (simp add: insertNode_def insertNodeAtBegin_def focusIfAsked_frame helloDoc_def Let_def
          getFirstLeafNode_def firstChild_def insertBefore_def insertedNodes_def
          afterInsertion_def finishOnNewLine_def)
qed

theorem insert_text_at_begin_of_hello_witness:
  "getBlockElementAtNode noFocus helloDoc 1 (Some 3) = Some \<lparr>startNode = 2, endNode = 2\<rparr> \<and>
   (\<exists>core'. insertNode noFocus helloCore textX (Some (opt Begin False False False)) = Inr (True, core') \<and>
      document core' =
        Node 0 Element ''BODY'' []
          [Node 1 Element ''DIV'' []
            [Node 2 Element ''DIV'' [] [Node 10 Text [] ''X'' [], Node 3 Text [] ''hello'' []]]])"
proof -
  have blk: "getBlockElementAtNode noFocus helloDoc 1 (Some 3) = Some \<lparr>startNode = 2, endNode = 2\<rparr>"
    by (simp add: instance_defs editor_defs)
  have doc: "document helloCore = helloDoc" and root: "contentDiv helloCore = 1"
    by (simp_all add: helloCore_def)
  have new: "10 \<notin> set (ids helloDoc)" by (simp add: helloDoc_def)
  have o: "position (opt Begin False False False) = Begin"
    "\<not> insertOnNewLine (opt Begin False False False)" by (simp_all add: opt_def)
  from insert_text_at_begin_of_hello[OF blk doc root new o, of "[]"] blk
  show ?thesis by (simp add: textX_def)
qed

text \<open>
  C7. The root holds the DIV with hello; a document fragment holding the text "X" (a
  node that is not a block) is inserted at \<open>End\<close> with \<open>insertOnNewLine\<close> true.
  The root ends up with the DIV followed by the bare text node: the host returns the
  emptied fragment as the inserted node, and wrapping that wraps nothing in the tree.
  No second block is created.
\<close>

theorem fragment_at_end_on_new_line_not_wrapped:
  "insertNode noFocus helloCore fragX (Some (opt End False False True)) =
     Inr (True, \<lparr>document = Node 0 Element ''BODY'' []
          [Node 1 Element ''DIV'' []
            [Node 2 Element ''DIV'' [] [Node 3 Text [] ''hello'' []],
             Node 10 Text [] ''X'' []]],
         contentDiv = 1, liveRange = None, cachedRange = None, nextId = 21\<rparr>)"
  by (simp add: dom_defs editor_defs instance_defs Let_def)

text \<open>
  The same call with the text node itself yields the two sibling blocks.
\<close>

lemma text_at_end_on_new_line_wrapped:
  "insertNode noFocus helloCore textX (Some (opt End False False True)) =
     Inr (True, \<lparr>document = Node 0 Element ''BODY'' []
          [Node 1 Element ''DIV'' []
            [Node 2 Element ''DIV'' [] [Node 3 Text [] ''hello'' []],
             Node 20 Element ''DIV'' [] [Node 10 Text [] ''X'' []]]],
         contentDiv = 1, liveRange = None, cachedRange = None, nextId = 21\<rparr>)"
  by (simp add: dom_defs editor_defs instance_defs Let_def)

text \<open>
  C8. A document fragment holding the text "X" is inserted at \<open>Begin\<close> into an empty
  root with \<open>insertOnNewLine\<close> true. The node the host returns (the emptied
  fragment) is not a block-level element, the wrapping step runs, and the text ends up
  in the root without a DIV around it.
\<close>

theorem fragment_at_begin_on_new_line_not_wrapped:
  "\<not> isBlockElement noFocus (afterInsertion fragX) \<and>
   insertNode noFocus emptyCore fragX (Some (opt Begin False False True)) =
     Inr (True, \<lparr>document = Node 0 Element ''BODY'' []
          [Node 1 Element ''DIV'' [] [Node 10 Text [] ''X'' []]],
         contentDiv = 1, liveRange = None, cachedRange = None, nextId = 21\<rparr>)"
  by (simp add: dom_defs editor_defs instance_defs Let_def)

text \<open>
  C9 as stated fails for a document fragment: inserted at \<open>Begin\<close> into an empty
  root, a fragment with two children leaves the root with two children, none of them
  the fragment.
\<close>

theorem fragment_children_become_root_children:
  "(case insertNode noFocus emptyCore fragXY (Some (opt Begin False False False)) of
      Inl e \<Rightarrow> []
    | Inr res \<Rightarrow> rootChildren (snd res)) = [Node 10 Text [] ''X'' [], Node 12 Text [] ''Y'' []]
   \<and> [Node 10 Text [] ''X'' [], Node 12 Text [] ''Y'' []] \<noteq> [fragXY]"
  by (simp add: dom_defs editor_defs instance_defs Let_def)

lemma empty_root_append:
  assumes root: "findNode cd doc = Some r" "nodeType r = Element" "childNodes r = []"
    and detached: "set (ids n) \<inter> set (ids doc) = {}"
  shows "\<exists>doc'. appendChild doc (Some r) n = Inr (doc', afterInsertion n) \<and>
           updFirst cd (\<lambda>q. setChildNodes (childNodes q @ insertedNodes n) q) doc = Some doc'"
proof -
  from root(1) have nr: "nid r = cd" by (rule findNode_nid)
  from root(1) have "cd \<in> set (ids doc)" using findNode_None(1)[of cd doc] by auto
  with detached have cdn: "cd \<notin> set (ids n)" by auto
  from root(1) obtain doc' where
    u: "updFirst cd (\<lambda>q. setChildNodes (childNodes q @ insertedNodes n) q) doc = Some doc'"
    using updFirst_None(1)[of cd _ doc] by fastforce
  show ?thesis using root(2) nr cdn u by (simp add: appendChild_def insertBefore_def)
qed

text \<open>
  C9, amended. For every \<open>Begin\<close> or \<open>End\<close> insertion of a detached node into
  an empty root (an element without children, for which the block lookup on null finds
  no block), the call returns true and the node is appended to the root: a node other
  than a document fragment becomes the root's sole child, inside a new DIV when
  \<open>insertOnNewLine\<close> is true and the node is not block-level; the children of a
  document fragment become the root's children, in order, when \<open>insertOnNewLine\<close>
  is false.
\<close>

theorem insert_into_empty_root:
  assumes pos: "position option = Begin \<or> position option = End"
    and root: "findNode (contentDiv core) (document core) = Some r" "nodeType r = Element"
      "childNodes r = []"
    and noblock: "getBlockElementAtNode a (document core) (contentDiv core) None = None"
    and detached: "set (ids n) \<inter> set (ids (document core)) = {}"
  shows "\<exists>core'. insertNode a core n (Some option) = Inr (True, core') \<and>
      (nodeType n \<noteq> DocumentFragment \<longrightarrow>
         rootChildren core' =
           (if insertOnNewLine option \<and> \<not> isBlockElement a n
            then [Node (nextId core) Element ''DIV'' [] [n]] else [n])) \<and>
      (nodeType n = DocumentFragment \<and> \<not> insertOnNewLine option \<longrightarrow>
         rootChildren core' = childNodes n)"
proof -
  let ?core = "focusIfAsked a core option"
  let ?cd = "contentDiv core"
  let ?f = "\<lambda>q. setChildNodes (childNodes q @ insertedNodes n) q"
  from empty_root_append[OF root detached] obtain doc' where
    app: "appendChild (document core) (Some r) n = Inr (doc', afterInsertion n)" and
    u: "updFirst ?cd ?f (document core) = Some doc'" by blast
  from root(1) have nr: "nid r = ?cd" by (rule findNode_nid)
  have leaf: "getFirstLeafNode r = None" "getLastLeafNode r = None"
    using root(3) by (simp_all add: getFirstLeafNode_def getLastLeafNode_def firstChild_def lastChild_def)
  have run: "insertNode a core n (Some option) =
      Inr (True, finishOnNewLine a ?core option (doc', afterInsertion n))"
    using pos root(1) noblock leaf app
    by (auto simp: insertNode_def insertNodeAtBegin_def insertNodeAtEnd_def focusIfAsked_frame)
  have fr: "?f r = setChildNodes (insertedNodes n) r" using root(3) by simp
  have found: "findNode ?cd doc' = Some (setChildNodes (insertedNodes n) r)"
    using updFirst_find(1)[OF u root(1), of ?cd] nr fr by (simp add: nid_setChildNodes)
  have plain: "rootChildren (?core\<lparr>document := doc'\<rparr>) = insertedNodes n"
    using found by (simp add: rootChildren_def focusIfAsked_frame childNodes_setChildNodes)
  have wrapped: "rootChildren (?core\<lparr>document := wrap doc' n HTML_EMPTY_DIV (nextId ?core),
                     nextId := Suc (nextId ?core)\<rparr>) = [Node (nextId core) Element ''DIV'' [] [n]]"
    if nf: "nodeType n \<noteq> DocumentFragment"
  proof -
    let ?g = "\<lambda>x. setChildNodes [x] (HTML_EMPTY_DIV (nextId core))"
    from root(1) have "?cd \<in> set (ids (document core))"
      using findNode_None(1)[of ?cd "document core"] by auto
    moreover have "nid n \<in> set (ids n)" by (cases n) simp
    ultimately have ne: "nid n \<noteq> ?cd" and nn: "nid n \<notin> set (ids (document core))"
      using detached by auto
    obtain t g v where r: "r = Node ?cd t g v []" using nr root(3) by (cases r) auto
    have inner: "updFirst (nid n) ?g (?f r) = Some (Node ?cd t g v [?g n])"
      using ne nf by (simp add: r insertedNodes_def updFirst_self)
    have eq: "updFirst (nid n) ?g doc' = updFirst ?cd (\<lambda>x. Node ?cd t g v [?g n]) (document core)"
      by (rule updFirst_compose(1)[OF u root(1) nn inner])
    from root(1) obtain doc2 where
      u2: "updFirst ?cd (\<lambda>x. Node ?cd t g v [?g n]) (document core) = Some doc2"
      using updFirst_None(1)[of ?cd _ "document core"] by fastforce
    have f2: "findNode ?cd doc2 = Some (Node ?cd t g v [?g n])"
      using updFirst_find(1)[OF u2 root(1), of ?cd] by simp
    show ?thesis using eq u2 f2
      by (simp add: wrap_def rootChildren_def focusIfAsked_frame HTML_EMPTY_DIV_def)
  qed
  show ?thesis
    using run plain wrapped
    by (auto simp: finishOnNewLine_def afterInsertion_def insertedNodes_def focusIfAsked_frame)
qed

theorem insert_into_empty_root_witness:
  "position (opt Begin False False True) = Begin \<and>
   findNode (contentDiv emptyCore) (document emptyCore) = Some (Node 1 Element ''DIV'' [] []) \<and>
   getBlockElementAtNode noFocus (document emptyCore) (contentDiv emptyCore) None = None \<and>
   (\<exists>core'. insertNode noFocus emptyCore textX (Some (opt Begin False False True)) = Inr (True, core') \<and>
      rootChildren core' = [Node 20 Element ''DIV'' [] [textX]])"
proof -
  let ?o = "opt Begin False False True"
  let ?r = "Node 1 Element ''DIV'' [] []"
  have p: "position ?o = Begin" by (simp add: opt_def)
  then have pos: "position ?o = Begin \<or> position ?o = End" by simp
  have root: "findNode (contentDiv emptyCore) (document emptyCore) = Some ?r"
    by (simp add: emptyCore_def)
  have el: "nodeType ?r = Element" and kids: "childNodes ?r = []" by simp_all
  have noblock: "getBlockElementAtNode noFocus (document emptyCore) (contentDiv emptyCore) None = None"
    by (simp add: noFocus_def blockAtNode_def)
  have detached: "set (ids textX) \<inter> set (ids (document emptyCore)) = {}"
    by (simp add: textX_def emptyCore_def)
  from insert_into_empty_root[OF pos root el kids noblock detached] obtain core' where
    run: "insertNode noFocus emptyCore textX (Some ?o) = Inr (True, core')" and
    kid: "nodeType textX \<noteq> DocumentFragment \<longrightarrow>
           rootChildren core' =
             (if insertOnNewLine ?o \<and> \<not> isBlockElement noFocus textX
              then [Node (nextId emptyCore) Element ''DIV'' [] [textX]] else [textX])"
    by blast
  from kid have "rootChildren core' = [Node 20 Element ''DIV'' [] [textX]]"
    by (simp add: textX_def opt_def noFocus_def blockByTag_def blockTags_def getTagOfNode_def
          emptyCore_def)
  with run p root noblock show ?thesis by blast
qed

section \<open>Insertion at the selection\<close>

lemma set_idsl: "set (idsl cs) = (\<Union>c\<in>set cs. set (ids c))"
  by (induction cs) auto

lemma nid_in_ids: "nid q \<in> set (ids q)"
  by (cases q) simp

lemma ids_childNodes: "set (idsl (childNodes q)) \<subseteq> set (ids q)"
  by (cases q) auto

lemma ids_setNodeValue: "ids (setNodeValue v q) = ids q"
  by (cases q) simp

lemma idsl_parts:
  "set (idsl (takeWhile P cs)) \<subseteq> set (idsl cs)"
  "set (idsl (dropWhile P cs)) \<subseteq> set (idsl cs)"
  "set (idsl (take k cs)) \<subseteq> set (idsl cs)"
  "set (idsl (drop k cs)) \<subseteq> set (idsl cs)"
  by (auto simp: set_idsl dest: set_takeWhileD set_dropWhileD in_set_takeD in_set_dropD)

lemma updFirst_count:
  assumes u: "updFirst i f t = Some t'" and q: "findNode i t = Some q" and j: "j \<notin> set (ids t)"
  shows "count_list (ids t') j = count_list (ids (f q)) j"
proof -
  from updFirst_mset(1)[OF u] q
  have eq: "mset (ids t') + mset (ids q) = mset (ids t) + mset (ids (f q))" by auto
  have "count (mset (ids t') + mset (ids q)) j = count (mset (ids t) + mset (ids (f q))) j"
    using eq by simp
  moreover have "j \<notin> set (ids q)" using findNode_ids(1)[OF q] j by auto
  ultimately show ?thesis using j by (simp add: count_mset count_list_0_iff)
qed

lemma updFirst_ids:
  assumes u: "updFirst i f t = Some t'" and q: "findNode i t = Some q"
  shows "set (ids t') \<subseteq> set (ids t) \<union> set (ids (f q))"
proof -
  from updFirst_mset(1)[OF u] q
  have eq: "mset (ids t') + mset (ids q) = mset (ids t) + mset (ids (f q))" by auto
  have "set_mset (mset (ids t') + mset (ids q)) = set_mset (mset (ids t) + mset (ids (f q)))"
    using eq by simp
  then show ?thesis by auto
qed

subsection \<open>Positions in document order and the contents of a range\<close>

lemma pathLe_refl: "pathLe xs xs"
  by (induction xs) auto

lemma pathLe_trans: "pathLe xs ys \<Longrightarrow> pathLe ys zs \<Longrightarrow> pathLe xs zs"
proof (induction xs ys arbitrary: zs rule: pathLe.induct)
  case (1 ys)
  then show ?case by simp
next
  case (2 x xs)
  then show ?case by simp
next
  case (3 x xs y ys)
  then show ?case by (cases zs) auto
qed

lemma pathLe_append: "pathLe xs ys \<Longrightarrow> pathLe xs (ys @ zs)"
  by (induction xs ys rule: pathLe.induct) auto

lemma pathLe_prefix: "pathLe (q @ xs) (q @ ys) = pathLe xs ys"
  by (induction q) auto

lemma behind_snoc: "behind (q @ [j]) = q @ [Suc j]"
  by (simp add: behind_def)

lemma behind_extend: "s \<noteq> [] \<Longrightarrow> pathLe (behind (q @ [j] @ s)) (q @ [Suc j])"
proof -
  assume "s \<noteq> []"
  then have "behind (q @ [j] @ s) = q @ (j # butlast s @ [Suc (last s)])"
    by (simp add: behind_def butlast_append)
  then show ?thesis by (simp add: pathLe_prefix)
qed

lemma inside_extend:
  assumes "inside gs ge (q @ [j])"
  shows "inside gs ge (q @ [j] @ s)"
proof (cases "s = []")
  case True
  with assms show ?thesis by simp
next
  case False
  from assms have a: "pathLe gs (q @ [j])" and b: "pathLe (q @ [Suc j]) ge"
    by (simp_all add: inside_def behind_snoc)
  from a have "pathLe gs ((q @ [j]) @ s)" by (rule pathLe_append)
  moreover from behind_extend[OF False] b have "pathLe (behind (q @ [j] @ s)) ge"
    by (rule pathLe_trans)
  ultimately show ?thesis by (simp add: inside_def)
qed

lemma charItems_paths: "e \<in> set (charItems p i k v) \<Longrightarrow> \<exists>j. fst e = p @ [j]"
  by (induction p i k v rule: charItems.induct) auto

lemma items_paths:
  "e \<in> set (itemsAt p t) \<Longrightarrow> \<exists>s. fst e = p @ s"
  "e \<in> set (itemsOfKids p k ts) \<Longrightarrow> \<exists>j s. fst e = p @ [j] @ s"
proof (induction p t and p k ts rule: itemsAt_itemsOfKids.induct)
  case (1 p i t g v cs)
  then show ?case by (auto dest: charItems_paths split: if_splits)
next
  case (2 p k)
  then show ?case by simp
next
  case (3 p k c cs)
  then show ?case by fastforce
qed

lemma items_inside:
  assumes "inside gs ge (q @ [j])"
  shows "filter (\<lambda>e. \<not> inside gs ge (fst e)) (itemsAt (q @ [j]) t) = []"
proof -
  have "inside gs ge (fst e)" if "e \<in> set (itemsAt (q @ [j]) t)" for e
  proof -
    from items_paths(1)[OF that] obtain s where "fst e = (q @ [j]) @ s" by blast
    with inside_extend[OF assms, of s] show ?thesis by simp
  qed
  then show ?thesis by (auto simp: filter_empty_conv)
qed

lemma charItems_snd: "map snd (charItems p i k v) = map (CharItem i) v"
  by (induction p i k v rule: charItems.induct) auto

lemma items_snd:
  "map snd (itemsAt p t) = map snd (itemsAt p' t)"
  "map snd (itemsOfKids p k ts) = map snd (itemsOfKids p' k' ts)"
proof (induction p t and p k ts arbitrary: p' and p' k' rule: itemsAt_itemsOfKids.induct)
  case (1 p i t g v cs)
  from 1[of p'] show ?case by (simp add: charItems_snd)
next
  case (2 p k)
  then show ?case by simp
next
  case (3 p k c cs)
  from 3(1)[of "p' @ [k']"] 3(2)[of p' "Suc k'"] show ?case by simp
qed

lemma keepChars_items:
  "map snd (charItems p' i k' (keepChars gs ge p k v)) =
   map snd (filter (\<lambda>e. \<not> inside gs ge (fst e)) (charItems p i k v))"
  by (induction gs ge p k v arbitrary: k' rule: keepChars.induct) (auto simp: charItems_snd)

lemma delAt_items:
  "\<not> inside gs ge p \<Longrightarrow>
     map snd (itemsAt p' (delAt gs ge p t)) =
     map snd (filter (\<lambda>e. \<not> inside gs ge (fst e)) (itemsAt p t))"
  "map snd (itemsOfKids p' k' (delKidsAt gs ge p k ts)) =
     map snd (filter (\<lambda>e. \<not> inside gs ge (fst e)) (itemsOfKids p k ts))"
proof (induction gs ge p t and gs ge p k ts arbitrary: p' and p' k' rule: delAt_delKidsAt.induct)
  case (1 gs ge p i t g v cs)
  from 1(1)[of p' 0] 1(2) show ?case
    by (simp add: keepChars_items[of p' i 0 gs ge p 0 v])
next
  case (2 gs ge p k)
  then show ?case by simp
next
  case (3 gs ge p k c cs)
  show ?case
  proof (cases "inside gs ge (p @ [k])")
    case True
    from 3(1)[OF True, of p' k'] items_inside[OF True, of c] True show ?thesis by simp
  next
    case False
    from 3(2)[OF False False, of "p' @ [k']"] 3(3)[OF False, of p' "Suc k'"] False
    show ?thesis by simp
  qed
qed

lemma charItems_node: "(p', NodeItem i) \<notin> set (charItems p j k v)"
  by (induction p j k v rule: charItems.induct) auto

lemma items_ids:
  "(p', NodeItem i) \<in> set (itemsAt p t) \<Longrightarrow> i \<in> set (ids t)"
  "(p', NodeItem i) \<in> set (itemsOfKids p k ts) \<Longrightarrow> i \<in> set (idsl ts)"
proof (induction p t and p k ts rule: itemsAt_itemsOfKids.induct)
  case (1 p j t g v cs)
  then show ?case by (auto simp: charItems_node split: if_splits)
next
  case (2 p k)
  then show ?case by simp
next
  case (3 p k c cs)
  then show ?case by auto
qed

lemma ids_items:
  "i \<in> set (ids t) \<Longrightarrow> \<exists>p'. (p', NodeItem i) \<in> set (itemsAt p t)"
  "i \<in> set (idsl ts) \<Longrightarrow> \<exists>p'. (p', NodeItem i) \<in> set (itemsOfKids p k ts)"
proof (induction p t and p k ts rule: itemsAt_itemsOfKids.induct)
  case (1 p j t g v cs)
  then show ?case by auto
next
  case (2 p k)
  then show ?case by simp
next
  case (3 p k c cs)
  then show ?case by auto
qed

lemma items_unique:
  "distinct (ids t) \<Longrightarrow> (p1, NodeItem i) \<in> set (itemsAt p t) \<Longrightarrow>
     (p2, NodeItem i) \<in> set (itemsAt p t) \<Longrightarrow> p1 = p2"
  "distinct (idsl ts) \<Longrightarrow> (p1, NodeItem i) \<in> set (itemsOfKids p k ts) \<Longrightarrow>
     (p2, NodeItem i) \<in> set (itemsOfKids p k ts) \<Longrightarrow> p1 = p2"
proof (induction p t and p k ts rule: itemsAt_itemsOfKids.induct)
  case (1 p j t g v cs)
  then show ?case by (auto simp: charItems_node dest: items_ids(2) split: if_splits)
next
  case (2 p k)
  then show ?case by simp
next
  case (3 p k c cs)
  from 3(3) have dc: "distinct (ids c)" and dcs: "distinct (idsl cs)"
    and dj: "set (ids c) \<inter> set (idsl cs) = {}" by auto
  from 3(4) have a: "(p1, NodeItem i) \<in> set (itemsAt (p @ [k]) c) \<or>
                     (p1, NodeItem i) \<in> set (itemsOfKids p (Suc k) cs)" by auto
  from 3(5) have b: "(p2, NodeItem i) \<in> set (itemsAt (p @ [k]) c) \<or>
                     (p2, NodeItem i) \<in> set (itemsOfKids p (Suc k) cs)" by auto
  from a b dj 3(1)[OF dc] 3(2)[OF dcs] show ?case
    by (auto dest: items_ids)
qed

lemma node_content: "NodeItem i \<in> set (content t) \<longleftrightarrow> i \<in> set (ids t)"
proof
  assume "NodeItem i \<in> set (content t)"
  then obtain p' where "(p', NodeItem i) \<in> set (itemsAt [] t)"
    by (auto simp: content_def)
  then show "i \<in> set (ids t)" by (rule items_ids(1))
next
  assume "i \<in> set (ids t)"
  from ids_items(1)[OF this, of "[]"] show "NodeItem i \<in> set (content t)"
    by (force simp: content_def)
qed

lemma not_inside_root: "gs \<noteq> [] \<Longrightarrow> \<not> inside gs ge []"
  by (cases gs) (simp_all add: inside_def)

lemma delAt_content:
  "gs \<noteq> [] \<Longrightarrow> content (delAt gs ge [] t) = remainingContent t gs ge"
  using delAt_items(1)[where gs=gs and ge=ge and p="[]" and p'="[]" and t=t] not_inside_root[of gs ge]
  by (simp add: content_def remainingContent_def)

lemma deleted_absent:
  assumes d: "distinct (ids t)" and g: "gs \<noteq> []"
    and s: "NodeItem i \<in> set (selectedContent t gs ge)"
  shows "i \<notin> set (ids (delAt gs ge [] t))"
proof
  assume "i \<in> set (ids (delAt gs ge [] t))"
  then have "NodeItem i \<in> set (remainingContent t gs ge)"
    using delAt_content[OF g, of ge t] by (simp add: node_content[symmetric])
  then obtain p2 where p2: "(p2, NodeItem i) \<in> set (itemsAt [] t)" and o: "\<not> inside gs ge p2"
    by (auto simp: remainingContent_def)
  from s obtain p1 where p1: "(p1, NodeItem i) \<in> set (itemsAt [] t)" and i: "inside gs ge p1"
    by (auto simp: selectedContent_def)
  from items_unique(1)[OF d p1 p2] i o show False by simp
qed

lemma delAt_mset:
  "mset (ids (delAt gs ge p t)) \<subseteq># mset (ids t)"
  "mset (idsl (delKidsAt gs ge p k ts)) \<subseteq># mset (idsl ts)"
proof (induction gs ge p t and gs ge p k ts rule: delAt_delKidsAt.induct)
  case (1 gs ge p i t g v cs)
  then show ?case by simp
next
  case (2 gs ge p k)
  then show ?case by simp
next
  case (3 gs ge p k c cs)
  show ?case
  proof (cases "inside gs ge (p @ [k])")
    case True
    with 3(1) show ?thesis by (simp add: subset_mset.add_increasing)
  next
    case False
    with 3(2) 3(3) show ?thesis by (simp add: subset_mset.add_mono)
  qed
qed

lemma mset_sub_distinct:
  assumes "mset xs \<subseteq># mset ys" and "distinct ys"
  shows "distinct xs"
proof -
  have le: "count (mset xs) a \<le> 1" for a
  proof -
    have "count (mset xs) a \<le> count (mset ys) a"
      using assms(1) by (rule mset_subset_eq_count)
    also have "\<dots> \<le> 1" using assms(2) by (simp add: distinct_count_atmost_1)
    finally show ?thesis .
  qed
  show ?thesis unfolding distinct_count_atmost_1
  proof (intro allI)
    fix a
    show "count (mset xs) a = (if a \<in> set xs then 1 else 0)"
    proof (cases "a \<in> set xs")
      case True
      then have "count (mset xs) a \<noteq> 0" by (simp add: count_mset_0_iff)
      with le[of a] have "count (mset xs) a = 1" by arith
      with True show ?thesis by simp
    next
      case False
      then show ?thesis by (simp add: count_mset_0_iff)
    qed
  qed
qed

lemma mset_sub_set: "mset xs \<subseteq># mset ys \<Longrightarrow> set xs \<subseteq> set ys"
  using set_mset_mono[of "mset xs" "mset ys"] by simp

subsection \<open>Moving a node with \<open>Range.insertNode\<close>\<close>

lemma removeNode_absent:
  "nid t \<noteq> i \<Longrightarrow> i \<notin> set (ids (removeNode i t))"
  "i \<notin> set (idsl (removeNodes i ts))"
  by (induction i t and i ts rule: removeNode_removeNodes.induct) auto

lemma removeNode_mset:
  "mset (ids (removeNode i t)) \<subseteq># mset (ids t)"
  "mset (idsl (removeNodes i ts)) \<subseteq># mset (idsl ts)"
proof (induction i t and i ts rule: removeNode_removeNodes.induct)
  case (1 i j t g v cs)
  then show ?case by simp
next
  case (2 i)
  then show ?case by simp
next
  case (3 i c cs)
  show ?case
  proof (cases "nid c = i")
    case True
    with 3(1) show ?thesis by (simp add: subset_mset.add_increasing)
  next
    case False
    with 3(2) 3(3) show ?thesis by (simp add: subset_mset.add_mono)
  qed
qed

lemma nid_removeNode: "nid (removeNode i t) = nid t"
  by (cases t) simp

lemma prune_mset:
  "mset (ids (prune u t)) \<subseteq># mset (ids t)"
  "mset (idsl (prunes u ts)) \<subseteq># mset (idsl ts)"
proof (induction u t and u ts rule: prune_prunes.induct)
  case (1 u i t g v cs)
  then show ?case by simp
next
  case (2 u)
  then show ?case by simp
next
  case (3 u c cs)
  show ?case
  proof (cases "nid c \<in> set u")
    case True
    with 3(1) show ?thesis by (simp add: subset_mset.add_increasing)
  next
    case False
    with 3(2) 3(3) show ?thesis by (simp add: subset_mset.add_mono)
  qed
qed

lemma nid_prune: "nid (prune u t) = nid t"
  by (cases t) simp

lemma childNodes_prune: "childNodes (prune u t) = prunes u (childNodes t)"
  by (cases t) simp

lemma prune_unused:
  "nid t \<notin> set u \<Longrightarrow> set (ids (prune u t)) \<inter> set u = {}"
  "set (idsl (prunes u ts)) \<inter> set u = {}"
  by (induction u t and u ts rule: prune_prunes.induct) auto

lemma prunes_keeps: "c \<in> set ts \<Longrightarrow> nid c \<notin> set u \<Longrightarrow> nid c \<in> set (idsl (prunes u ts))"
proof (induction ts)
  case Nil
  then show ?case by simp
next
  case (Cons x xs)
  then show ?case using nid_in_ids[of "prune u x"] by (auto simp: nid_prune)
qed

lemma sub_add_right: "A \<subseteq># (B::'a multiset) \<Longrightarrow> A \<subseteq># B + C"
  by (simp add: subset_mset.add_increasing2)

lemma sub_add_left: "A \<subseteq># (C::'a multiset) \<Longrightarrow> A \<subseteq># B + C"
  by (simp add: subset_mset.add_increasing)

lemma sub_add_mset: "A \<subseteq># B \<Longrightarrow> A \<subseteq># add_mset x B"
  using sub_add_left[of A B "{#x#}"] by simp

lemma findNode_mset:
  "findNode i t = Some n \<Longrightarrow> mset (ids n) \<subseteq># mset (ids t)"
  "findNodes i ts = Some n \<Longrightarrow> mset (ids n) \<subseteq># mset (idsl ts)"
proof (induction i t and i ts rule: findNode_findNodes.induct)
  case (1 i j t g v cs)
  show ?case
  proof (cases "i = j")
    case True
    with 1(2) show ?thesis by auto
  next
    case False
    with 1(2) have "findNodes i cs = Some n" by simp
    from 1(1)[OF False this] show ?thesis by (simp add: sub_add_mset)
  qed
next
  case (2 i)
  then show ?case by simp
next
  case (3 i c cs)
  show ?case
  proof (cases "findNode i c")
    case None
    with 3(3) have "findNodes i cs = Some n" by simp
    from 3(2)[OF None this] show ?thesis by (simp add: sub_add_left)
  next
    case (Some x)
    with 3(3) have "findNode i c = Some n" by simp
    from 3(1)[OF this] show ?thesis by (simp add: sub_add_right)
  qed
qed

lemma updFirst_nid:
  "updFirst i f t = Some t' \<Longrightarrow> (\<And>x. nid (f x) = nid x) \<Longrightarrow> nid t' = nid t"
  by (cases t) (auto split: if_splits)

lemma insertKidsBefore_mset:
  "mset (idsl (insertKidsBefore new ref cs)) = mset (idsl cs) + mset (idsl new)"
proof (cases ref)
  case None
  then show ?thesis by (simp add: idsl_append)
next
  case (Some r)
  have "mset (idsl cs) =
        mset (idsl (takeWhile (\<lambda>c. nid c \<noteq> r) cs)) + mset (idsl (dropWhile (\<lambda>c. nid c \<noteq> r) cs))"
    using idsl_append[of "takeWhile (\<lambda>c. nid c \<noteq> r) cs" "dropWhile (\<lambda>c. nid c \<noteq> r) cs"]
    by simp
  with Some show ?thesis by (simp add: idsl_append)
qed

lemma splitText_mset:
  "mset (ids (splitText i off fresh q)) = mset (ids q) \<or>
   mset (ids (splitText i off fresh q)) = add_mset fresh (mset (ids q))"
proof -
  let ?P = "\<lambda>c. nid c \<noteq> i"
  have q: "mset (ids q) = add_mset (nid q) (mset (idsl (takeWhile ?P (childNodes q))) +
             mset (idsl (dropWhile ?P (childNodes q))))"
    using idsl_append[of "takeWhile ?P (childNodes q)" "dropWhile ?P (childNodes q)"]
    by (cases q) simp
  show ?thesis
  proof (cases "dropWhile ?P (childNodes q)")
    case Nil
    have "splitText i off fresh q = setChildNodes (takeWhile ?P (childNodes q)) q"
      by (simp only: splitText_def Nil list.case append_Nil2)
    moreover
    have "mset (ids q) = add_mset (nid q) (mset (idsl (takeWhile ?P (childNodes q))))"
      using q unfolding Nil by simp
    ultimately show ?thesis by (simp add: ids_setChildNodes)
  next
    case (Cons c rest)
    have "splitText i off fresh q =
        setChildNodes (takeWhile ?P (childNodes q) @
          setNodeValue (take off (nodeValue c)) c # Node fresh Text [] (drop off (nodeValue c)) [] # rest) q"
      by (simp only: splitText_def Cons list.case)
    moreover
    have "mset (ids q) = add_mset (nid q) (mset (idsl (takeWhile ?P (childNodes q))) +
             mset (idsl (c # rest)))"
      using q unfolding Cons by simp
    ultimately show ?thesis by (simp add: ids_setChildNodes idsl_append ids_setNodeValue)
  qed
qed

lemma nid_splitText: "nid (splitText i off fresh q) = nid q"
  by (simp add: splitText_def nid_setChildNodes)

lemma nodeNow_facts:
  "nid (nodeNow doc n) = nid n"
  "set (ids (nodeNow doc n)) \<subseteq> set (ids doc) \<union> set (ids n)"
  "distinct (ids doc) \<Longrightarrow> distinct (ids n) \<Longrightarrow> distinct (ids (nodeNow doc n))"
proof -
  show "nid (nodeNow doc n) = nid n"
    by (auto simp: nodeNow_def nid_prune findNode_nid split: option.splits)
  show "set (ids (nodeNow doc n)) \<subseteq> set (ids doc) \<union> set (ids n)"
    using mset_sub_set[OF prune_mset(1)[of "ids doc" n]]
    by (auto simp: nodeNow_def split: option.splits dest: findNode_ids(1))
  show "distinct (ids (nodeNow doc n))" if "distinct (ids doc)" and "distinct (ids n)"
    using that mset_sub_distinct[OF prune_mset(1)[of "ids doc" n]]
    by (auto simp: nodeNow_def split: option.splits dest: findNode_mset(1) mset_sub_distinct)
qed

lemma insertionSite_facts:
  assumes site: "insertionSite doc fresh r n = Inr (doc1, p, ref, fresh')"
  shows "mset (ids doc1) = mset (ids doc) \<or> mset (ids doc1) = add_mset fresh (mset (ids doc))"
    and "nid doc1 = nid doc"
    and "p \<in> set (ids doc)"
    and "p \<notin> set (ids (nodeNow doc n))"
proof -
  from site obtain sn where sn: "findNode (startContainer r) doc = Some sn"
    by (auto simp: insertionSite_def split: option.splits)
  have all: "(mset (ids doc1) = mset (ids doc) \<or> mset (ids doc1) = add_mset fresh (mset (ids doc))) \<and>
        nid doc1 = nid doc \<and> p \<in> set (ids doc) \<and> p \<notin> set (ids (nodeNow doc n))"
  proof (cases "nodeType sn = Text")
    case True
    with site sn obtain pn where pn: "parentOf (nid sn) doc = Some pn"
      by (auto simp: insertionSite_def split: option.splits if_splits)
    from site sn True pn have np: "nid pn \<notin> set (ids (nodeNow doc n))" and pp: "p = nid pn"
      and u: "updFirst (nid pn) (splitText (nid sn) (startOffset r) fresh) doc = Some doc1"
      by (auto simp: insertionSite_def split: option.splits if_splits)
    from updFirst_mset(1)[OF u] obtain q where q: "findNode (nid pn) doc = Some q"
      and eq: "mset (ids doc1) + mset (ids q) =
               mset (ids doc) + mset (ids (splitText (nid sn) (startOffset r) fresh q))" by blast
    from splitText_mset[of "nid sn" "startOffset r" fresh q] eq
    have m: "mset (ids doc1) = mset (ids doc) \<or> mset (ids doc1) = add_mset fresh (mset (ids doc))"
      by auto
    have "nid q = nid pn" using q by (rule findNode_nid)
    then have "nid pn \<in> set (ids doc)" using findNode_ids(1)[OF q] nid_in_ids[of q] by auto
    with m np pp updFirst_nid[OF u] show ?thesis by (simp add: nid_splitText)
  next
    case False
    with site sn have "doc1 = doc" and pp: "p = nid sn" and np: "nid sn \<notin> set (ids (nodeNow doc n))"
      by (auto simp: insertionSite_def split: option.splits if_splits)
    moreover have "nid sn \<in> set (ids doc)" using findNode_ids(1)[OF sn] nid_in_ids[of sn] by auto
    ultimately show ?thesis by simp
  qed
  from all show "mset (ids doc1) = mset (ids doc) \<or> mset (ids doc1) = add_mset fresh (mset (ids doc))"
    and "nid doc1 = nid doc" and "p \<in> set (ids doc)" and "p \<notin> set (ids (nodeNow doc n))"
    by simp_all
qed

lemma Range_insertNode_parts:
  assumes "Range_insertNode doc fresh r n = Inr (doc', fresh')"
  shows "\<exists>doc1 p ref. insertionSite doc fresh r n = Inr (doc1, p, ref, fresh') \<and>
           updFirst p (\<lambda>q. setChildNodes (insertKidsBefore (movedNodes doc n) ref (childNodes q)) q)
             (detach n doc1) = Some doc'"
  using assms by (auto simp: Range_insertNode_def split: sum.splits option.splits)

lemma placed_mset:
  assumes u: "updFirst p (\<lambda>q. setChildNodes (insertKidsBefore new ref (childNodes q)) q) t = Some t'"
  shows "mset (ids t') = mset (ids t) + mset (idsl new)"
proof -
  from updFirst_mset(1)[OF u] obtain q where
    eq: "mset (ids t') + mset (ids q) =
         mset (ids t) + mset (ids (setChildNodes (insertKidsBefore new ref (childNodes q)) q))"
    by blast
  have "mset (ids (setChildNodes (insertKidsBefore new ref (childNodes q)) q)) =
        mset (ids q) + mset (idsl new)"
    by (cases q) (simp add: insertKidsBefore_mset)
  with eq show ?thesis by simp
qed

lemma Range_insertNode_once:
  assumes ins: "Range_insertNode doc fresh r n = Inr (doc', fresh')"
    and nf: "nodeType n \<noteq> DocumentFragment"
    and dd: "distinct (ids doc)" and dn: "distinct (ids n)"
  shows "count_list (ids doc') (nid n) = 1"
proof -
  let ?v = "nodeNow doc n"
  from Range_insertNode_parts[OF ins] obtain doc1 p ref where
    site: "insertionSite doc fresh r n = Inr (doc1, p, ref, fresh')" and
    u: "updFirst p (\<lambda>q. setChildNodes (insertKidsBefore (movedNodes doc n) ref (childNodes q)) q)
          (detach n doc1) = Some doc'" by blast
  note f = insertionSite_facts[OF site]
  have root: "nid doc \<noteq> nid n"
  proof
    assume "nid doc = nid n"
    then have "?v = doc" using nf by (simp add: nodeNow_def findNode_self)
    with f(3) f(4) show False by simp
  qed
  have gone: "nid n \<notin> set (ids (detach n doc1))"
    using nf root f(2) by (simp add: detach_def removeNode_absent(1))
  have "mset (ids doc') = mset (ids (detach n doc1)) + mset (ids ?v)"
    using placed_mset[OF u] nf by (simp add: movedNodes_def)
  then have "count (mset (ids doc')) (nid n) =
             count (mset (ids (detach n doc1))) (nid n) + count (mset (ids ?v)) (nid n)" by simp
  moreover have "count (mset (ids (detach n doc1))) (nid n) = 0"
    using gone by (simp add: count_mset_0_iff)
  moreover have "count (mset (ids ?v)) (nid n) = 1"
    using nodeNow_facts(3)[OF dd dn] nodeNow_facts(1)[of doc n] nid_in_ids[of ?v]
    by (simp add: distinct_count_atmost_1)
  ultimately show ?thesis by (simp add: count_mset[symmetric] del: count_mset)
qed

lemma Range_insertNode_fragment:
  assumes ins: "Range_insertNode doc fresh r n = Inr (doc', fresh')"
    and fr: "nodeType n = DocumentFragment"
    and dd: "distinct (ids doc)" and dn: "distinct (ids n)"
    and c: "c \<in> set (childNodes n)" and cf: "nid c \<noteq> fresh"
  shows "count_list (ids doc') (nid c) = 1"
proof -
  let ?new = "prunes (ids doc) (childNodes n)"
  from Range_insertNode_parts[OF ins] obtain doc1 p ref where
    site: "insertionSite doc fresh r n = Inr (doc1, p, ref, fresh')" and
    u: "updFirst p (\<lambda>q. setChildNodes (insertKidsBefore (movedNodes doc n) ref (childNodes q)) q)
          (detach n doc1) = Some doc'" by blast
  note f = insertionSite_facts[OF site]
  have mv: "movedNodes doc n = ?new"
    using fr by (simp add: movedNodes_def nodeNow_def childNodes_prune)
  have "mset (ids doc') = mset (ids doc1) + mset (idsl ?new)"
    using placed_mset[OF u] fr mv by (simp add: detach_def)
  then have sum: "count (mset (ids doc')) (nid c) =
             count (mset (ids doc1)) (nid c) + count (mset (idsl ?new)) (nid c)" by simp
  have d1: "count (mset (ids doc1)) (nid c) = count (mset (ids doc)) (nid c)"
    using f(1) cf by auto
  have dk: "distinct (idsl (childNodes n))" using dn by (cases n) simp
  have dnew: "distinct (idsl ?new)" using mset_sub_distinct[OF prune_mset(2) dk] .
  have "count (mset (ids doc)) (nid c) + count (mset (idsl ?new)) (nid c) = 1"
  proof (cases "nid c \<in> set (ids doc)")
    case True
    then have "count (mset (ids doc)) (nid c) = 1" using dd by (simp add: distinct_count_atmost_1)
    moreover have "nid c \<notin> set (idsl ?new)" using prune_unused(2)[of "ids doc" "childNodes n"] True by auto
    then have "count (mset (idsl ?new)) (nid c) = 0" by (simp add: count_mset_0_iff)
    ultimately show ?thesis by simp
  next
    case False
    then have "count (mset (ids doc)) (nid c) = 0" by (simp add: count_mset_0_iff)
    moreover have "nid c \<in> set (idsl ?new)" using prunes_keeps[OF c False] .
    then have "count (mset (idsl ?new)) (nid c) = 1" using dnew by (simp add: distinct_count_atmost_1)
    ultimately show ?thesis by simp
  qed
  with sum d1 show ?thesis by (simp add: count_mset[symmetric] del: count_mset)
qed

lemma Range_insertNode_ids:
  assumes ins: "Range_insertNode doc fresh r n = Inr (doc', fresh')"
  shows "set (ids doc') \<subseteq> set (ids doc) \<union> set (ids n) \<union> {fresh}"
proof -
  from Range_insertNode_parts[OF ins] obtain doc1 p ref where
    site: "insertionSite doc fresh r n = Inr (doc1, p, ref, fresh')" and
    u: "updFirst p (\<lambda>q. setChildNodes (insertKidsBefore (movedNodes doc n) ref (childNodes q)) q)
          (detach n doc1) = Some doc'" by blast
  note f = insertionSite_facts[OF site]
  have "set_mset (mset (ids doc')) = set_mset (mset (ids (detach n doc1)) + mset (idsl (movedNodes doc n)))"
    using placed_mset[OF u] by simp
  then have a: "set (ids doc') = set (ids (detach n doc1)) \<union> set (idsl (movedNodes doc n))" by simp
  have b: "set (ids (detach n doc1)) \<subseteq> set (ids doc1)"
    using mset_sub_set[OF removeNode_mset(1), of "nid n" doc1] by (auto simp: detach_def)
  have c: "set (ids doc1) \<subseteq> set (ids doc) \<union> {fresh}"
  proof -
    from f(1) consider (same) "mset (ids doc1) = mset (ids doc)"
      | (more) "mset (ids doc1) = mset (fresh # ids doc)" by auto
    then show ?thesis
    proof cases
      case same
      from mset_eq_setD[OF same] show ?thesis by auto
    next
      case more
      from mset_eq_setD[OF more] show ?thesis by auto
    qed
  qed
  have d: "set (idsl (movedNodes doc n)) \<subseteq> set (ids (nodeNow doc n))"
    using ids_childNodes[of "nodeNow doc n"] by (auto simp: movedNodes_def)
  from a b c d nodeNow_facts(2)[of doc n] show ?thesis by blast
qed

subsection \<open>The phases of \<open>insertNodeAtSelection\<close>\<close>

lemma select_frame:
  "document (fst (select_range c r)) = document c"
  "contentDiv (fst (select_range c r)) = contentDiv c"
  "document (fst (select_after c x)) = document c"
  "contentDiv (fst (select_after c x)) = contentDiv c"
  by (auto simp: select_range_def select_after_def split: option.splits)

lemma keepRange_frame:
  "document (keepRange c r) = document c"
  "contentDiv (keepRange c r) = contentDiv c"
  "nextId (keepRange c r) = nextId c"
  by (auto simp: keepRange_def split: option.splits)

lemma insertNodeAtSelection_phases:
  assumes "resolveRange core = Some r" and "insertNodeAtSelection a core n option = Inr core'"
  shows "\<exists>doc2 fresh r2 doc3 fresh3.
     insertionPoint a core option (deleteSelection core option r) = Inr (doc2, fresh, r2) \<and>
     Range_insertNode doc2 fresh r2 n = Inr (doc3, fresh3) \<and>
     core' = (if updateCursor option \<and> nodeForCursor n \<noteq> None
              then fst (select_after ((keepRange core (rangeLeftByHost a core n option r))
                          \<lparr>document := doc3, nextId := fresh3\<rparr>) (the (nodeForCursor n)))
              else fst (select_range ((keepRange core (rangeLeftByHost a core n option r))
                          \<lparr>document := doc3, nextId := fresh3\<rparr>)
                         (snd (deleteSelection core option r))))"
  using assms
  by (auto simp: insertNodeAtSelection_def Let_def
        split: sum.splits prod.splits option.splits if_splits)

lemma changeElementTag_ids:
  assumes e: "findNode i doc = Some e"
  shows "set (ids (fst (changeElementTag doc e tag fresh))) \<subseteq> set (ids doc) \<union> {fresh}"
proof (cases "updFirst (nid e) (\<lambda>x. Node fresh Element (toUpperCase tag) [] (childNodes e)) doc")
  case None
  then show ?thesis by (auto simp: changeElementTag_def Let_def)
next
  case (Some doc')
  from updFirst_Some_find(1)[OF Some] obtain q where q: "findNode (nid e) doc = Some q" by blast
  have "set (idsl (childNodes e)) \<subseteq> set (ids doc)"
    using ids_childNodes[of e] findNode_ids(1)[OF e] by auto
  with updFirst_ids[OF Some q] Some show ?thesis
    by (auto simp: changeElementTag_def Let_def)
qed

lemma insertionPoint_ids:
  assumes ip: "insertionPoint a core option (doc1, r1) = Inr (doc2, fresh, r2)"
  shows "set (ids doc2) \<subseteq> set (ids doc1) \<union> {nextId core} \<and> nextId core \<le> fresh"
proof (cases "getBlockElementAtNode a doc1 (contentDiv core) (Some (startContainer r1))")
  case None
  with ip show ?thesis by (auto simp: insertionPoint_def)
next
  case (Some b)
  with ip obtain e where e: "findNode (endNode b) doc1 = Some e"
    by (auto simp: insertionPoint_def split: option.splits)
  show ?thesis
  proof (cases "\<not> insertOnNewLine option \<and> getTagOfNode e = ''P''")
    case False
    with ip Some e show ?thesis
      by (auto simp: insertionPoint_def split: sum.splits if_splits)
  next
    case True
    obtain d nd where ce: "changeElementTag doc1 e ''div'' (nextId core) = (d, nd)"
      by (cases "changeElementTag doc1 e ''div'' (nextId core)")
    from ip Some e True ce have "doc2 = d" and "fresh = Suc (nextId core)"
      by (auto simp: insertionPoint_def Let_def split: if_splits)
    with changeElementTag_ids[OF e, of "''div''" "nextId core"] ce show ?thesis by simp
  qed
qed

lemma changeElementTag_distinct:
  assumes e: "findNode i doc = Some e" and d: "distinct (ids doc)" and f: "fresh \<notin> set (ids doc)"
  shows "distinct (ids (fst (changeElementTag doc e tag fresh)))"
proof (cases "updFirst (nid e) (\<lambda>x. Node fresh Element (toUpperCase tag) [] (childNodes e)) doc")
  case None
  with d show ?thesis by (simp add: changeElementTag_def Let_def)
next
  case (Some doc')
  from e have ne: "nid e = i" by (rule findNode_nid)
  from updFirst_mset(1)[OF Some] e ne
  have "mset (ids doc') + mset (ids e) =
        mset (ids doc) + mset (ids (Node fresh Element (toUpperCase tag) [] (childNodes e)))"
    by auto
  moreover have "mset (ids e) = add_mset (nid e) (mset (idsl (childNodes e)))" by (cases e) simp
  ultimately have eq: "add_mset (nid e) (mset (ids doc')) = mset (fresh # ids doc)" by simp
  have "mset (ids doc') \<subseteq># add_mset (nid e) (mset (ids doc'))"
    by (rule sub_add_mset) simp
  with eq have "mset (ids doc') \<subseteq># mset (fresh # ids doc)" by simp
  moreover have "distinct (fresh # ids doc)" using d f by simp
  ultimately have "distinct (ids doc')" by (rule mset_sub_distinct)
  with Some show ?thesis by (simp add: changeElementTag_def Let_def)
qed

lemma insertionPoint_distinct:
  assumes ip: "insertionPoint a core option (doc1, r1) = Inr (doc2, fresh, r2)"
    and d: "distinct (ids doc1)" and f: "nextId core \<notin> set (ids doc1)"
  shows "distinct (ids doc2)"
proof (cases "getBlockElementAtNode a doc1 (contentDiv core) (Some (startContainer r1))")
  case None
  with ip d show ?thesis by (auto simp: insertionPoint_def)
next
  case (Some b)
  with ip obtain e where e: "findNode (endNode b) doc1 = Some e"
    by (auto simp: insertionPoint_def split: option.splits)
  show ?thesis
  proof (cases "\<not> insertOnNewLine option \<and> getTagOfNode e = ''P''")
    case False
    with ip Some e d show ?thesis
      by (auto simp: insertionPoint_def split: sum.splits if_splits)
  next
    case True
    obtain dd nd where ce: "changeElementTag doc1 e ''div'' (nextId core) = (dd, nd)"
      by (cases "changeElementTag doc1 e ''div'' (nextId core)")
    from ip Some e True ce have "doc2 = dd"
      by (auto simp: insertionPoint_def Let_def split: if_splits)
    with changeElementTag_distinct[OF e d f, of "''div''"] ce show ?thesis by simp
  qed
qed

lemma insertNode_selection_result:
  assumes pos: "position option = SelectionStart"
    and rng: "resolveRange (focusIfAsked a core option) = Some r"
    and ok: "insertNode a core n (Some option) = Inr (res, core')"
  shows "\<exists>doc2 fresh r2 fresh3.
     insertionPoint a (focusIfAsked a core option) option
        (deleteSelection (focusIfAsked a core option) option r) = Inr (doc2, fresh, r2) \<and>
     Range_insertNode doc2 fresh r2 n = Inr (document core', fresh3) \<and>
     core' = (if updateCursor option \<and> nodeForCursor n \<noteq> None
              then fst (select_after
                     ((keepRange (focusIfAsked a core option)
                         (rangeLeftByHost a (focusIfAsked a core option) n option r))
                        \<lparr>document := document core', nextId := fresh3\<rparr>)
                     (the (nodeForCursor n)))
              else fst (select_range
                     ((keepRange (focusIfAsked a core option)
                         (rangeLeftByHost a (focusIfAsked a core option) n option r))
                        \<lparr>document := document core', nextId := fresh3\<rparr>)
                     (snd (deleteSelection (focusIfAsked a core option) option r))))"
proof -
  let ?core = "focusIfAsked a core option"
  let ?k = "keepRange ?core (rangeLeftByHost a ?core n option r)"
  from ok pos have sel: "insertNodeAtSelection a ?core n option = Inr core'"
    by (auto simp: insertNode_SelectionStart split: sum.splits)
  from insertNodeAtSelection_phases[OF rng sel] obtain doc2 fresh r2 doc3 fresh3 where
    ip: "insertionPoint a ?core option (deleteSelection ?core option r) = Inr (doc2, fresh, r2)" and
    ins: "Range_insertNode doc2 fresh r2 n = Inr (doc3, fresh3)" and
    c: "core' = (if updateCursor option \<and> nodeForCursor n \<noteq> None
              then fst (select_after (?k\<lparr>document := doc3, nextId := fresh3\<rparr>) (the (nodeForCursor n)))
              else fst (select_range (?k\<lparr>document := doc3, nextId := fresh3\<rparr>)
                         (snd (deleteSelection ?core option r))))"
    by blast
  from c have d: "document core' = doc3" by (simp add: select_frame)
  from ip ins c d show ?thesis by auto
qed

lemma selectionGaps_start: "selectionGaps doc r = Some (gs, ge) \<Longrightarrow> gs \<noteq> []"
  by (auto simp: selectionGaps_def split: option.splits)

text \<open>
  C3. For every \<open>SelectionStart\<close> insertion with \<open>replaceSelection\<close> true over
  a non-collapsed range of the document that returns without an error of the host (the
  state being well formed, \<open>uniqueIdentities\<close>): the block adjustment and the
  insertion work on the document from which the contents of the range have been
  deleted; the content of that document is the content of the old one without the
  nodes and the characters inside the range, in the same order; none of the nodes
  inside the range is in the resulting tree, unless it is part of the inserted node;
  and in the resulting tree each inserted node (the node itself, whether it was in the
  document before or not, or each child of an inserted fragment) occurs exactly once.
\<close>

theorem replaced_selection_deleted_first:
  assumes pos: "position option = SelectionStart" and rep: "replaceSelection option"
    and rng: "resolveRange (focusIfAsked a core option) = Some r" and nc: "\<not> collapsed r"
    and gaps: "selectionGaps (document core) r = Some (gs, ge)"
    and wf: "uniqueIdentities core n"
    and ok: "insertNode a core n (Some option) = Inr (res, core')"
  shows "(\<exists>doc2 fresh r2 fresh3.
            insertionPoint a (focusIfAsked a core option) option
              (Range_deleteContents (document core) r) = Inr (doc2, fresh, r2) \<and>
            Range_insertNode doc2 fresh r2 n = Inr (document core', fresh3)) \<and>
         content (fst (Range_deleteContents (document core) r)) =
           remainingContent (document core) gs ge \<and>
         (\<forall>i. NodeItem i \<in> set (selectedContent (document core) gs ge) \<longrightarrow>
               i \<in> set (ids n) \<or> i \<notin> set (ids (document core'))) \<and>
         (\<forall>c\<in>set (insertedNodes n). count_list (ids (document core')) (nid c) = 1)"
proof -
  let ?core = "focusIfAsked a core option"
  let ?doc = "document core"
  let ?doc1 = "delAt gs ge [] ?doc"
  from wf have unique: "distinct (ids ?doc)" "distinct (ids n)"
    and below: "\<forall>i\<in>set (ids ?doc) \<union> set (ids n). i < nextId core"
    by (simp_all add: uniqueIdentities_def)
  have del: "deleteSelection ?core option r = Range_deleteContents ?doc r"
    using rep nc by (simp add: deleteSelection_def focusIfAsked_frame)
  from insertNode_selection_result[OF pos rng ok] del obtain doc2 fresh r2 fresh3 where
    ip: "insertionPoint a ?core option (Range_deleteContents ?doc r) = Inr (doc2, fresh, r2)" and
    ins: "Range_insertNode doc2 fresh r2 n = Inr (document core', fresh3)"
    by auto
  have g: "gs \<noteq> []" using gaps by (rule selectionGaps_start)
  have "fst (Range_deleteContents ?doc r) = ?doc1"
    using nc gaps by (simp add: Range_deleteContents_def Let_def split: prod.splits)
  then obtain r1 where dr: "Range_deleteContents ?doc r = (?doc1, r1)"
    by (cases "Range_deleteContents ?doc r") simp
  have rest: "content (fst (Range_deleteContents ?doc r)) = remainingContent ?doc gs ge"
    using dr delAt_content[OF g] by simp
  have s1: "set (ids ?doc1) \<subseteq> set (ids ?doc)" using delAt_mset(1) by (rule mset_sub_set)
  have d1: "distinct (ids ?doc1)" using delAt_mset(1) unique(1) by (rule mset_sub_distinct)
  have n1: "nextId ?core \<notin> set (ids ?doc1)" using s1 below by (auto simp: focusIfAsked_frame)
  from ip dr have ip': "insertionPoint a ?core option (?doc1, r1) = Inr (doc2, fresh, r2)" by simp
  from insertionPoint_ids[OF ip'] have s2: "set (ids doc2) \<subseteq> set (ids ?doc1) \<union> {nextId core}"
    and fr: "nextId core \<le> fresh" by (simp_all add: focusIfAsked_frame)
  have d2: "distinct (ids doc2)" using ip' d1 n1 by (rule insertionPoint_distinct)
  have gone: "i \<in> set (ids n) \<or> i \<notin> set (ids (document core'))"
    if sel: "NodeItem i \<in> set (selectedContent ?doc gs ge)" for i
  proof -
    from sel obtain p where "(p, NodeItem i) \<in> set (itemsAt [] ?doc)"
      by (auto simp: selectedContent_def)
    then have "i \<in> set (ids ?doc)" by (rule items_ids(1))
    with below have lt: "i < nextId core" by auto
    from deleted_absent[OF unique(1) g sel] have "i \<notin> set (ids ?doc1)" .
    with s2 lt have "i \<notin> set (ids doc2)" by auto
    with Range_insertNode_ids[OF ins] lt fr show ?thesis by auto
  qed
  have once: "count_list (ids (document core')) (nid c) = 1" if c: "c \<in> set (insertedNodes n)" for c
  proof (cases "nodeType n = DocumentFragment")
    case True
    with c have ck: "c \<in> set (childNodes n)" by (simp add: insertedNodes_def)
    then have "nid c \<in> set (ids n)"
      using nid_in_ids[of c] ids_childNodes[of n] by (auto simp: set_idsl)
    with below have "nid c < nextId core" by blast
    with fr have "nid c \<noteq> fresh" by simp
    with Range_insertNode_fragment[OF ins True d2 unique(2) ck] show ?thesis by simp
  next
    case False
    with c have "c = n" by (simp add: insertedNodes_def)
    with Range_insertNode_once[OF ins False d2 unique(2)] show ?thesis by simp
  qed
  from ip ins rest gone once show ?thesis by blast
qed

lemma rich_run:
  "insertNode noFocus richCore textX (Some defaultOption) = Inr (True, richResult)"
  by (simp add: dom_defs editor_defs instance_defs richResult_def Let_def)

lemma span_run:
  "insertNode noFocus spanCore spanNode (Some defaultOption) = Inr (True, spanResult)"
  by (simp add: dom_defs editor_defs instance_defs spanResult_def Let_def)

lemma selected_run:
  "insertNode noFocus selectedCore fragXY (Some defaultOption) = Inr (True, selectedResult)"
  by (simp add: dom_defs editor_defs instance_defs selectedResult_def Let_def)

theorem replaced_selection_deleted_first_witness:
  "position defaultOption = SelectionStart \<and> replaceSelection defaultOption \<and>
   resolveRange (focusIfAsked noFocus richCore defaultOption)
     = Some \<lparr>startContainer = 3, startOffset = 1, endContainer = 6, endOffset = 1\<rparr> \<and>
   selectionGaps (document richCore)
       \<lparr>startContainer = 3, startOffset = 1, endContainer = 6, endOffset = 1\<rparr>
     = Some ([0, 0, 0, 1], [0, 0, 2, 1]) \<and>
   uniqueIdentities richCore textX \<and>
   insertNode noFocus richCore textX (Some defaultOption) = Inr (True, richResult) \<and>
   content (fst (Range_deleteContents (document richCore)
       \<lparr>startContainer = 3, startOffset = 1, endContainer = 6, endOffset = 1\<rparr>))
     = [NodeItem 0, NodeItem 1, NodeItem 2, NodeItem 3, CharItem 3 CHR ''a'',
        NodeItem 6, CharItem 6 CHR ''f''] \<and>
   4 \<notin> set (ids (document richResult)) \<and> 5 \<notin> set (ids (document richResult)) \<and>
   count_list (ids (document richResult)) 10 = 1 \<and>
   resolveRange (focusIfAsked noFocus spanCore defaultOption)
     = Some \<lparr>startContainer = 3, startOffset = 0, endContainer = 3, endOffset = 1\<rparr> \<and>
   findNode 4 (document spanCore) = Some spanNode \<and>
   insertNode noFocus spanCore spanNode (Some defaultOption) = Inr (True, spanResult) \<and>
   count_list (ids (document spanResult)) 4 = 1 \<and>
   resolveRange (focusIfAsked noFocus selectedCore defaultOption)
     = Some \<lparr>startContainer = 3, startOffset = 1, endContainer = 3, endOffset = 4\<rparr> \<and>
   insertNode noFocus selectedCore fragXY (Some defaultOption) = Inr (True, selectedResult) \<and>
   count_list (ids (document selectedResult)) 10 = 1 \<and>
   count_list (ids (document selectedResult)) 12 = 1"
proof -
  have pos: "position defaultOption = SelectionStart" and rep: "replaceSelection defaultOption"
    by (simp_all add: defaultOption_def)
  let ?r = "\<lparr>startContainer = 3, startOffset = 1, endContainer = 6, endOffset = 1\<rparr>"
  have rng: "resolveRange (focusIfAsked noFocus richCore defaultOption) = Some ?r"
    by (simp add: editor_defs instance_defs)
  have nc: "\<not> collapsed ?r" by (simp add: collapsed_def)
  have gaps: "selectionGaps (document richCore) ?r = Some ([0, 0, 0, 1], [0, 0, 2, 1])"
    by (simp add: selectionGaps_def richCore_def richDoc_def)
  have wf: "uniqueIdentities richCore textX"
    by (simp add: uniqueIdentities_def richCore_def richDoc_def textX_def)
  from replaced_selection_deleted_first[OF pos rep rng nc gaps wf rich_run]
  have c: "content (fst (Range_deleteContents (document richCore) ?r)) =
             remainingContent (document richCore) [0, 0, 0, 1] [0, 0, 2, 1]"
    and g: "\<forall>i. NodeItem i \<in> set (selectedContent (document richCore) [0, 0, 0, 1] [0, 0, 2, 1]) \<longrightarrow>
               i \<in> set (ids textX) \<or> i \<notin> set (ids (document richResult))"
    and o: "\<forall>c\<in>set (insertedNodes textX). count_list (ids (document richResult)) (nid c) = 1"
    by blast+
  have rc: "remainingContent (document richCore) [0, 0, 0, 1] [0, 0, 2, 1] =
              [NodeItem 0, NodeItem 1, NodeItem 2, NodeItem 3, CharItem 3 CHR ''a'',
               NodeItem 6, CharItem 6 CHR ''f'']"
    by (simp add: remainingContent_def richCore_def richDoc_def inside_def behind_def)
  have sc: "selectedContent (document richCore) [0, 0, 0, 1] [0, 0, 2, 1] =
              [CharItem 3 CHR ''b'', NodeItem 4, NodeItem 5, CharItem 5 CHR ''c'',
               CharItem 5 CHR ''d'', CharItem 6 CHR ''e'']"
    by (simp add: selectedContent_def richCore_def richDoc_def inside_def behind_def)
  from g sc have g4: "4 \<notin> set (ids (document richResult))"
    and g5: "5 \<notin> set (ids (document richResult))" by (auto simp: textX_def)
  from o have o10: "count_list (ids (document richResult)) 10 = 1"
    by (simp add: insertedNodes_def textX_def)
  let ?s = "\<lparr>startContainer = 3, startOffset = 0, endContainer = 3, endOffset = 1\<rparr>"
  have srng: "resolveRange (focusIfAsked noFocus spanCore defaultOption) = Some ?s"
    by (simp add: editor_defs instance_defs)
  have snc: "\<not> collapsed ?s" by (simp add: collapsed_def)
  have sgaps: "selectionGaps (document spanCore) ?s = Some ([0, 0, 0, 0], [0, 0, 0, 1])"
    by (simp add: selectionGaps_def spanCore_def richCore_def richDoc_def)
  have swf: "uniqueIdentities spanCore spanNode"
    by (simp add: uniqueIdentities_def spanCore_def richCore_def richDoc_def spanNode_def)
  have att: "findNode 4 (document spanCore) = Some spanNode"
    by (simp add: spanCore_def richCore_def richDoc_def spanNode_def)
  from replaced_selection_deleted_first[OF pos rep srng snc sgaps swf span_run]
  have "\<forall>c\<in>set (insertedNodes spanNode). count_list (ids (document spanResult)) (nid c) = 1"
    by blast
  then have s4: "count_list (ids (document spanResult)) 4 = 1"
    by (simp add: insertedNodes_def spanNode_def)
  let ?t = "\<lparr>startContainer = 3, startOffset = 1, endContainer = 3, endOffset = 4\<rparr>"
  have trng: "resolveRange (focusIfAsked noFocus selectedCore defaultOption) = Some ?t"
    by (simp add: editor_defs instance_defs)
  have tnc: "\<not> collapsed ?t" by (simp add: collapsed_def)
  have tgaps: "selectionGaps (document selectedCore) ?t = Some ([0, 0, 0, 1], [0, 0, 0, 4])"
    by (simp add: selectionGaps_def selectedCore_def helloCore_def helloDoc_def)
  have twf: "uniqueIdentities selectedCore fragXY"
    by (simp add: uniqueIdentities_def selectedCore_def helloCore_def helloDoc_def fragXY_def)
  have kids: "insertedNodes fragXY = [Node 10 Text [] ''X'' [], Node 12 Text [] ''Y'' []]"
    by (simp add: insertedNodes_def fragXY_def)
  from replaced_selection_deleted_first[OF pos rep trng tnc tgaps twf selected_run]
  have "\<forall>c\<in>set (insertedNodes fragXY). count_list (ids (document selectedResult)) (nid c) = 1"
    by blast
  then have t10: "count_list (ids (document selectedResult)) 10 = 1"
    and t12: "count_list (ids (document selectedResult)) 12 = 1"
    unfolding kids by simp_all
  from c rc have cc: "content (fst (Range_deleteContents (document richCore) ?r)) =
              [NodeItem 0, NodeItem 1, NodeItem 2, NodeItem 3, CharItem 3 CHR ''a'',
               NodeItem 6, CharItem 6 CHR ''f'']" by simp
  from pos rep rng gaps wf rich_run cc g4 g5 o10 srng att span_run s4 trng selected_run t10 t12
  show ?thesis by blast
qed

subsection \<open>The selection after the insertion\<close>





lemma select_range_refuses:
  "snd (select_range helloCore \<lparr>startContainer = 3, startOffset = 1, endContainer = 3, endOffset = 4\<rparr>)"
  "\<not> snd (select_range helloCore \<lparr>startContainer = 3, startOffset = 999, endContainer = 3, endOffset = 7\<rparr>)"
  "\<not> snd (select_range helloCore \<lparr>startContainer = 3, startOffset = 4, endContainer = 3, endOffset = 1\<rparr>)"
  "\<not> snd (select_range helloCore \<lparr>startContainer = 0, startOffset = 0, endContainer = 0, endOffset = 0\<rparr>)"
  by (simp_all add: select_range_def selectable_def inEditor_def contains_def validBoundary_def
        selectionGaps_def helloCore_def helloDoc_def)






text \<open>
  C2, amended. For every \<open>SelectionStart\<close> insertion with \<open>insertOnNewLine\<close>
  false for which a range is resolved, the end node of the block at its start has the
  tag P, and the call returns: the node is inserted into the document in which that
  paragraph has been replaced by a new DIV with the same children; the insertion takes
  place at the normalized boundaries computed before the retyping if both boundary
  nodes differ from the new DIV and are still below the content root, and otherwise at
  the live range as the host left it.
\<close>

theorem paragraph_retyped_before_insertion:
  assumes pos: "position option = SelectionStart" and nl: "\<not> insertOnNewLine option"
    and rng: "resolveRange (focusIfAsked a core option) = Some r"
    and del: "deleteSelection (focusIfAsked a core option) option r = (doc1, r1)"
    and blk: "getBlockElementAtNode a doc1 (contentDiv core) (Some (startContainer r1)) = Some b"
    and en: "findNode (endNode b) doc1 = Some e" and tag: "getTagOfNode e = ''P''"
    and fresh: "nextId core \<notin> set (ids doc1)"
    and ok: "insertNode a core n (Some option) = Inr (res, core')"
  shows "\<exists>doc2 r2 fresh3.
      updFirst (endNode b) (\<lambda>x. Node (nextId core) Element ''DIV'' [] (childNodes e)) doc1 = Some doc2 \<and>
      findNode (nextId core) doc2 = Some (Node (nextId core) Element ''DIV'' [] (childNodes e)) \<and>
      r2 = (if startContainer (normalize doc1 r1) \<noteq> nextId core \<and>
               endContainer (normalize doc1 r1) \<noteq> nextId core \<and>
               contains doc2 (contentDiv core) (startContainer (normalize doc1 r1)) \<and>
               contains doc2 (contentDiv core) (endContainer (normalize doc1 r1))
            then normalize doc1 r1 else liveRangeAfterRetype doc1 e r1) \<and>
      Range_insertNode doc2 (Suc (nextId core)) r2 n = Inr (document core', fresh3)"
proof -
  let ?core = "focusIfAsked a core option"
  let ?new = "Node (nextId core) Element ''DIV'' [] (childNodes e)"
  from en have ne: "nid e = endNode b" by (rule findNode_nid)
  from en obtain doc2 where u: "updFirst (endNode b) (\<lambda>x. ?new) doc1 = Some doc2"
    using updFirst_None(1)[of "endNode b" _ doc1] by fastforce
  have up: "toUpperCase ''div'' = ''DIV''" by (simp add: toUpperCase_def)
  have ce: "changeElementTag doc1 e ''div'' (nextId core) = (doc2, ?new)"
    using u ne by (simp add: changeElementTag_def up)
  have f: "findNode (nextId core) doc2 = Some ?new"
    using updFirst_find(1)[OF u en, of "nextId core"] fresh by simp
  let ?r2 = "if startContainer (normalize doc1 r1) \<noteq> nextId core \<and>
               endContainer (normalize doc1 r1) \<noteq> nextId core \<and>
               contains doc2 (contentDiv core) (startContainer (normalize doc1 r1)) \<and>
               contains doc2 (contentDiv core) (endContainer (normalize doc1 r1))
            then normalize doc1 r1 else liveRangeAfterRetype doc1 e r1"
  have ip: "insertionPoint a ?core option (doc1, r1) = Inr (doc2, Suc (nextId core), ?r2)"
    using blk en nl tag ce
    by (simp add: insertionPoint_def focusIfAsked_frame remapAllowed_def Let_def)
  from insertNode_selection_result[OF pos rng ok] del ip obtain fresh3 where
    "Range_insertNode doc2 (Suc (nextId core)) ?r2 n = Inr (document core', fresh3)"
    by auto
  with u f show ?thesis by blast
qed

lemma paragraphText_run:
  "insertNode noFocus paragraphTextCore textX (Some (opt SelectionStart True False False)) =
     Inr (True, paragraphTextResult)"
  by (simp add: dom_defs editor_defs instance_defs paragraphTextResult_def Let_def)

theorem paragraph_retyped_before_insertion_witness:
  "position (opt SelectionStart True False False) = SelectionStart \<and>
   \<not> insertOnNewLine (opt SelectionStart True False False) \<and>
   getTagOfNode (Node 2 Element ''P'' [] [Node 3 Text [] ''hello'' []]) = ''P'' \<and>
   insertNode noFocus paragraphTextCore textX (Some (opt SelectionStart True False False)) =
     Inr (True, paragraphTextResult) \<and>
   (\<exists>doc2 r2 fresh3.
      updFirst 2 (\<lambda>x. Node 20 Element ''DIV'' [] [Node 3 Text [] ''hello'' []])
        (document paragraphTextCore) = Some doc2 \<and>
      findNode 20 doc2 = Some (Node 20 Element ''DIV'' [] [Node 3 Text [] ''hello'' []]) \<and>
      r2 = \<lparr>startContainer = 3, startOffset = 2, endContainer = 3, endOffset = 2\<rparr> \<and>
      Range_insertNode doc2 21 r2 textX = Inr (document paragraphTextResult, fresh3))"
proof -
  let ?o = "opt SelectionStart True False False"
  let ?r = "\<lparr>startContainer = 3, startOffset = 2, endContainer = 3, endOffset = 2\<rparr>"
  let ?e = "Node 2 Element ''P'' [] [Node 3 Text [] ''hello'' []]"
  have pos: "position ?o = SelectionStart" and nl: "\<not> insertOnNewLine ?o" by (simp_all add: opt_def)
  have rng: "resolveRange (focusIfAsked noFocus paragraphTextCore ?o) = Some ?r"
    by (simp add: editor_defs instance_defs)
  have del: "deleteSelection (focusIfAsked noFocus paragraphTextCore ?o) ?o ?r =
               (document paragraphTextCore, ?r)"
    by (simp add: editor_defs instance_defs collapsed_def)
  have blk: "getBlockElementAtNode noFocus (document paragraphTextCore) (contentDiv paragraphTextCore)
               (Some (startContainer ?r)) = Some \<lparr>startNode = 2, endNode = 2\<rparr>"
    by (simp add: editor_defs instance_defs)
  have en: "findNode (endNode \<lparr>startNode = 2, endNode = 2\<rparr>) (document paragraphTextCore) = Some ?e"
    by (simp add: paragraphTextCore_def)
  have tag: "getTagOfNode ?e = ''P''" by (simp add: getTagOfNode_def)
  have fresh: "nextId paragraphTextCore \<notin> set (ids (document paragraphTextCore))"
    by (simp add: paragraphTextCore_def)
  from paragraph_retyped_before_insertion[OF pos nl rng del blk en tag fresh paragraphText_run]
  obtain doc2 r2 fresh3 where
    u: "updFirst 2 (\<lambda>x. Node 20 Element ''DIV'' [] [Node 3 Text [] ''hello'' []])
          (document paragraphTextCore) = Some doc2" and
    f: "findNode 20 doc2 = Some (Node 20 Element ''DIV'' [] [Node 3 Text [] ''hello'' []])" and
    r2: "r2 = (if startContainer (normalize (document paragraphTextCore) ?r) \<noteq> 20 \<and>
               endContainer (normalize (document paragraphTextCore) ?r) \<noteq> 20 \<and>
               contains doc2 (contentDiv paragraphTextCore) (startContainer (normalize (document paragraphTextCore) ?r)) \<and>
               contains doc2 (contentDiv paragraphTextCore) (endContainer (normalize (document paragraphTextCore) ?r))
            then normalize (document paragraphTextCore) ?r
            else liveRangeAfterRetype (document paragraphTextCore) ?e ?r)" and
    i: "Range_insertNode doc2 21 r2 textX = Inr (document paragraphTextResult, fresh3)"
    by (auto simp: paragraphTextCore_def)
  from u have d2: "doc2 = Node 0 Element ''BODY'' []
        [Node 1 Element ''DIV'' [] [Node 20 Element ''DIV'' [] [Node 3 Text [] ''hello'' []]]]"
    by (simp add: paragraphTextCore_def)
  have "r2 = ?r" unfolding r2 d2
    by (simp add: normalize_def normalizePosition_def contains_def paragraphTextCore_def)
  with u f i pos nl tag paragraphText_run show ?thesis by blast
qed

text \<open>
  C2 as stated fails when the caret is in an empty paragraph: the normalized boundary
  is the paragraph itself, which is no longer below the content root after the
  retyping, so the boundaries are not remapped; the insertion takes place in the
  content root in front of the new DIV, and the new node is not inside the DIV.
\<close>

theorem empty_paragraph_boundaries_not_remapped:
  "resolveRange paragraphCore
     = Some \<lparr>startContainer = 2, startOffset = 0, endContainer = 2, endOffset = 0\<rparr> \<and>
   getBlockElementAtNode noFocus (document paragraphCore) (contentDiv paragraphCore) (Some 2)
     = Some \<lparr>startNode = 2, endNode = 2\<rparr> \<and>
   normalize (document paragraphCore)
      \<lparr>startContainer = 2, startOffset = 0, endContainer = 2, endOffset = 0\<rparr>
     = \<lparr>startContainer = 2, startOffset = 0, endContainer = 2, endOffset = 0\<rparr> \<and>
   insertionPoint noFocus paragraphCore (opt SelectionStart False False False)
      (document paragraphCore, \<lparr>startContainer = 2, startOffset = 0, endContainer = 2, endOffset = 0\<rparr>)
     = Inr (Node 0 Element ''BODY'' [] [Node 1 Element ''DIV'' [] [Node 20 Element ''DIV'' [] []]], 21,
            \<lparr>startContainer = 1, startOffset = 0, endContainer = 1, endOffset = 0\<rparr>) \<and>
   insertNode noFocus paragraphCore textX (Some (opt SelectionStart False False False)) =
     Inr (True,
       \<lparr>document = Node 0 Element ''BODY'' []
          [Node 1 Element ''DIV'' [] [Node 10 Text [] ''X'' [], Node 20 Element ''DIV'' [] []]],
        contentDiv = 1,
        liveRange = Some \<lparr>startContainer = 1, startOffset = 0, endContainer = 1, endOffset = 1\<rparr>,
        cachedRange = None, nextId = 21\<rparr>)"
  by (simp add: dom_defs editor_defs instance_defs Let_def)

end
